theory Spec2Isabelle
  imports Main "HOL-Library.Char_ord" "HOL-Library.Word"
begin

unbundle bit_operations_syntax

section \<open>The tokenizer of src/scripts/webpack.js (class Parser)\<close>

text \<open>
  The source is JavaScript. The model keeps what JavaScript does where it differs from
  the C lexer the code was ported from:
  \<^item> \<open>source[i]\<close> out of range is \<open>undefined\<close> (here \<open>None\<close>), which is not equal to
    the character NUL and for which every relational comparison is false;
  \<^item> \<open>this.previous = this.current\<close> copies a reference, so token objects live in a store
    and \<open>current\<close>, \<open>previous\<close> are addresses into it;
  \<^item> a one-character string compared with a number is first converted to a number;
  \<^item> \<open>console.warn\<close> and \<open>console.log\<close> are output lists of the state.

  The source is a \<open>string\<close>, one \<open>char\<close> for each byte of the buffer; offsets are
  integers, since the code decrements the cursor.
\<close>

subsection \<open>Data\<close>

datatype TokenType =
    TOKEN_LEFT_PAREN | TOKEN_RIGHT_PAREN | TOKEN_LEFT_BRACKET | TOKEN_RIGHT_BRACKET
  | TOKEN_LEFT_BRACE | TOKEN_RIGHT_BRACE | TOKEN_COLON | TOKEN_COMMA | TOKEN_STAR
  | TOKEN_PERCENT | TOKEN_CARET | TOKEN_PLUS | TOKEN_MINUS | TOKEN_TILDE | TOKEN_QUESTION
  | TOKEN_PIPEPIPE | TOKEN_PIPE | TOKEN_AMPAMP | TOKEN_AMP | TOKEN_EQEQ | TOKEN_EQ
  | TOKEN_BANGEQ | TOKEN_BANG | TOKEN_DOTDOTDOT | TOKEN_DOTDOT | TOKEN_DOT | TOKEN_SLASH
  | TOKEN_LTLT | TOKEN_LTEQ | TOKEN_LT | TOKEN_GTGT | TOKEN_GTEQ | TOKEN_GT | TOKEN_LINE
  | TOKEN_STRING | TOKEN_INTERPOLATION | TOKEN_NAME | TOKEN_FIELD | TOKEN_STATIC_FIELD
  | TOKEN_NUMBER | TOKEN_ERROR | TOKEN_EOF
  | TOKEN_BREAK | TOKEN_CLASS | TOKEN_CONSTRUCT | TOKEN_ELSE | TOKEN_FALSE | TOKEN_FOR
  | TOKEN_FOREIGN | TOKEN_IF | TOKEN_IMPORT | TOKEN_IN | TOKEN_IS | TOKEN_NULL
  | TOKEN_RETURN | TOKEN_STATIC | TOKEN_SUPER | TOKEN_THIS | TOKEN_TRUE | TOKEN_VAR
  | TOKEN_WHILE

text \<open>A JavaScript number as far as the tokenizer computes with it: NaN or an integer.\<close>

datatype jsnum = NaN | Num int

datatype jsval = Undefined | Number jsnum | Str string

text \<open>The objects \<open>this.current\<close> and \<open>this.previous\<close> point to (lines 115-128);
  \<open>start\<close> is absent until \<open>makeToken\<close> writes it.\<close>

record token =
  type_t :: "TokenType option"
  start_t :: "int option"
  length_t :: int
  line_t :: int
  value_t :: jsval

text \<open>The objects pushed onto \<open>this.tokens\<close> (lines 210-215).\<close>

record entry =
  type_e :: TokenType
  value_e :: string
  line_e :: int

record parser =
  source :: string
  tokenStart :: int
  currentChar :: int
  currentLine :: int
  current :: nat
  previous :: nat
  store :: "token list"
  parens :: "int option list"
  numParens :: nat
  tokens :: "entry list"
  warned :: "(int \<times> string) list"
  logged :: "int list"

definition MAX_INTERPOLATION_NESTING :: nat where
  "MAX_INTERPOLATION_NESTING = 8"

text \<open>The table of reserved words (lines 77-98), with its sentinel whose identifier is null.\<close>

definition keywords_table :: "(string option \<times> nat \<times> TokenType) list" where
  "keywords_table =
   [(Some ''break'', 5, TOKEN_BREAK), (Some ''class'', 5, TOKEN_CLASS),
    (Some ''construct'', 9, TOKEN_CONSTRUCT), (Some ''else'', 4, TOKEN_ELSE),
    (Some ''false'', 5, TOKEN_FALSE), (Some ''for'', 3, TOKEN_FOR),
    (Some ''foreign'', 7, TOKEN_FOREIGN), (Some ''if'', 2, TOKEN_IF),
    (Some ''import'', 6, TOKEN_IMPORT), (Some ''in'', 2, TOKEN_IN),
    (Some ''is'', 2, TOKEN_IS), (Some ''null'', 4, TOKEN_NULL),
    (Some ''return'', 6, TOKEN_RETURN), (Some ''static'', 6, TOKEN_STATIC),
    (Some ''super'', 5, TOKEN_SUPER), (Some ''this'', 4, TOKEN_THIS),
    (Some ''true'', 4, TOKEN_TRUE), (Some ''var'', 3, TOKEN_VAR),
    (Some ''while'', 5, TOKEN_WHILE), (None, 0, TOKEN_EOF)]"

subsection \<open>Characters and JavaScript primitives\<close>

definition NUL :: char where "NUL = CHR 0x00"
definition LF :: char where "LF = CHR 0x0A"
definition TAB :: char where "TAB = CHR 0x09"
definition CR :: char where "CR = CHR 0x0D"
definition DQUOTE :: char where "DQUOTE = CHR 0x22"
definition BACKSLASH :: char where "BACKSLASH = CHR 0x5C"

text \<open>\<open>source[i]\<close>: the character at \<open>i\<close>, or \<open>undefined\<close> outside the string.\<close>

definition char_at :: "string \<Rightarrow> int \<Rightarrow> char option" where
  "char_at src i = (if 0 \<le> i \<and> i < int (length src) then Some (src ! nat i) else None)"

text \<open>\<open>c >= lo && c <= hi\<close> on one-character strings compares code units; with
  \<open>undefined\<close> on the left both comparisons are false.\<close>

definition between :: "char option \<Rightarrow> char \<Rightarrow> char \<Rightarrow> bool" where
  "between c lo hi = (case c of None \<Rightarrow> False | Some x \<Rightarrow> lo \<le> x \<and> x \<le> hi)"

text \<open>\<open>String.prototype.substr(start, length)\<close>.\<close>

definition substr :: "string \<Rightarrow> int \<Rightarrow> int \<Rightarrow> string" where
  "substr s st n =
     (let st' = (if st < 0 then max (int (length s) + st) 0 else st)
      in take (nat n) (drop (nat st') s))"

text \<open>The decimal rendering of an integer, as string concatenation with a number gives.\<close>

fun digits_of :: "nat \<Rightarrow> string" where
  "digits_of n =
     (if n < 10 then [char_of (48 + n)] else digits_of (n div 10) @ [char_of (48 + n mod 10)])"

declare digits_of.simps [simp del]

definition string_of_int :: "int \<Rightarrow> string" where
  "string_of_int i = (if i < 0 then CHR ''-'' # digits_of (nat (- i)) else digits_of (nat i))"

text \<open>\<open>c - '0'\<close> for a digit character.\<close>

definition digitValue :: "char \<Rightarrow> int" where
  "digitValue x = int (of_char x) - 48"

text \<open>The number a one-character string (or \<open>undefined\<close>) converts to when it is compared
  with a number: a digit is its value, a white-space character is 0, anything else NaN.\<close>

definition toNumber :: "char option \<Rightarrow> jsnum" where
  "toNumber c =
     (case c of None \<Rightarrow> NaN
      | Some x \<Rightarrow>
          if CHR ''0'' \<le> x \<and> x \<le> CHR ''9'' then Num (digitValue x)
          else if of_char x \<in> {9, 10, 11, 12, 13, 32, 160 :: nat} then Num 0
          else NaN)"

text \<open>What \<open>'...' + c\<close> appends.\<close>

definition show_char :: "char option \<Rightarrow> string" where
  "show_char c = (case c of None \<Rightarrow> ''undefined'' | Some x \<Rightarrow> [x])"

text \<open>\<open>parseFloat(n)\<close> and \<open>parseInt(n, 16)\<close> for an integer \<open>n\<close>, as \<open>makeNumber\<close>
  calls them on the offset \<open>this.tokenStart\<close>: the argument is first rendered in decimal;
  \<open>parseFloat\<close> reads the same integer back, \<open>parseInt\<close> reads the decimal digits in
  base 16.\<close>

definition parseFloat :: "int \<Rightarrow> jsnum" where
  "parseFloat n = Num n"

definition hexValue :: "string \<Rightarrow> int" where
  "hexValue ds = foldl (\<lambda>acc d. 16 * acc + digitValue d) 0 ds"

definition parseInt16 :: "int \<Rightarrow> jsnum" where
  "parseInt16 n = (if n < 0 then Num (- hexValue (digits_of (nat (- n))))
                   else Num (hexValue (digits_of (nat n))))"

text \<open>\<open>a | d\<close>: both operands as 32-bit integers, NaN as 0.\<close>

definition bitor32 :: "int \<Rightarrow> jsnum \<Rightarrow> int" where
  "bitor32 a d =
     sint ((word_of_int a :: 32 word) OR (case d of NaN \<Rightarrow> 0 | Num n \<Rightarrow> word_of_int n))"

subsection \<open>Construction and character access (lines 101-197)\<close>

definition blank :: token where
  "blank = \<lparr>type_t = None, start_t = None, length_t = 0, line_t = 0, value_t = Undefined\<rparr>"

text \<open>The state the constructor sets up before its loop (lines 103-156).\<close>

definition init :: "string \<Rightarrow> parser" where
  "init src =
     \<lparr>source = src, tokenStart = 0, currentChar = 0, currentLine = 0,
      current = 0, previous = 1, store = [blank, blank],
      parens = replicate MAX_INTERPOLATION_NESTING None, numParens = 0,
      tokens = [], warned = [], logged = []\<rparr>"

definition isName :: "char option \<Rightarrow> bool" where
  "isName c \<longleftrightarrow> between c CHR ''a'' CHR ''z'' \<or> between c CHR ''A'' CHR ''Z'' \<or> c = Some CHR ''_''"

definition isDigit :: "char option \<Rightarrow> bool" where
  "isDigit c \<longleftrightarrow> between c CHR ''0'' CHR ''9''"

definition peekChar :: "parser \<Rightarrow> char option" where
  "peekChar p = char_at (source p) (currentChar p)"

definition peekNextChar :: "parser \<Rightarrow> char option" where
  "peekNextChar p = char_at (source p) (currentChar p + 1)"

definition nextChar :: "parser \<Rightarrow> char option \<times> parser" where
  "nextChar p =
     (let c = peekChar p;
          p1 = p\<lparr>currentChar := currentChar p + 1\<rparr>
      in (c, if c = Some LF then p1\<lparr>currentLine := currentLine p1 + 1\<rparr> else p1))"

definition matchChar :: "char \<Rightarrow> parser \<Rightarrow> bool \<times> parser" where
  "matchChar c p = (if peekChar p \<noteq> Some c then (False, p) else (True, snd (nextChar p)))"

text \<open>\<open>lexError\<close> (lines 627-629): \<open>console.warn([this.currentLine, 'Error', format])\<close>.\<close>

definition lexError :: "string \<Rightarrow> parser \<Rightarrow> parser" where
  "lexError format p = p\<lparr>warned := warned p @ [(currentLine p, format)]\<rparr>"

subsection \<open>Making tokens (lines 201-222)\<close>

text \<open>An assignment to a field of the object \<open>this.current\<close> refers to.\<close>

definition update_current :: "(token \<Rightarrow> token) \<Rightarrow> parser \<Rightarrow> parser" where
  "update_current f p = p\<lparr>store := (store p)[current p := f (store p ! current p)]\<rparr>"

definition makeToken :: "TokenType \<Rightarrow> parser \<Rightarrow> parser" where
  "makeToken ty p =
     (let p1 = update_current (\<lambda>t. t\<lparr>type_t := Some ty, start_t := Some (tokenStart p),
                 length_t := currentChar p - tokenStart p, line_t := currentLine p\<rparr>) p;
          p2 = (if ty = TOKEN_LINE then update_current (\<lambda>t. t\<lparr>line_t := line_t t - 1\<rparr>) p1
                else p1);
          cur = store p2 ! current p2
      in p2\<lparr>tokens := tokens p2 @
             [\<lparr>type_e = ty,
               value_e = substr (source p2) (the (start_t cur)) (length_t cur),
               line_e = line_t cur\<rparr>]\<rparr>)"

definition twoCharToken :: "char \<Rightarrow> TokenType \<Rightarrow> TokenType \<Rightarrow> parser \<Rightarrow> parser" where
  "twoCharToken c two one p = (let (m, p1) = matchChar c p in makeToken (if m then two else one) p1)"

subsection \<open>Comments (lines 225-257)\<close>

text \<open>The iterations that stop only at a character are partial: past the end of the string
  \<open>peekChar\<close> is \<open>undefined\<close>, never a newline, a quote or NUL. Not returning is \<open>None\<close>.\<close>

partial_function (option) skipLineComment :: "parser \<Rightarrow> parser option" where
  "skipLineComment p =
     (if peekChar p \<noteq> Some LF \<and> peekChar p \<noteq> Some NUL
      then skipLineComment (snd (nextChar p))
      else Some p)"

partial_function (option) skipBlockComment_loop :: "int \<Rightarrow> parser \<Rightarrow> parser option" where
  "skipBlockComment_loop nesting p =
     (if nesting > 0 then
        if peekChar p = Some NUL then Some (lexError ''Unterminated block comment.'' p)
        else if peekChar p = Some CHR ''/'' \<and> peekNextChar p = Some CHR ''*''
          then skipBlockComment_loop (nesting + 1) (snd (nextChar (snd (nextChar p))))
        else if peekChar p = Some CHR ''*'' \<and> peekNextChar p = Some CHR ''/''
          then skipBlockComment_loop (nesting - 1) (snd (nextChar (snd (nextChar p))))
        else skipBlockComment_loop nesting (snd (nextChar p))
      else Some p)"

definition skipBlockComment :: "parser \<Rightarrow> parser option" where
  "skipBlockComment p = skipBlockComment_loop 1 p"

subsection \<open>Numbers (lines 261-320)\<close>

text \<open>\<open>readHexDigit\<close>: \<open>c - '0'\<close> is a number, \<open>c - 'a' + 10\<close> and \<open>c - 'A' + 10\<close> are NaN
  (a letter does not convert to a number). The decrement does not undo a line increment
  of \<open>nextChar\<close>.\<close>

definition readHexDigit :: "parser \<Rightarrow> jsnum \<times> parser" where
  "readHexDigit p =
     (let (c, p1) = nextChar p in
      if between c CHR ''0'' CHR ''9'' then (Num (digitValue (the c)), p1)
      else if between c CHR ''a'' CHR ''f'' then (NaN, p1)
      else if between c CHR ''A'' CHR ''F'' then (NaN, p1)
      else (Num (- 1), p1\<lparr>currentChar := currentChar p1 - 1\<rparr>))"

definition makeNumber :: "bool \<Rightarrow> parser \<Rightarrow> parser" where
  "makeNumber isHex p =
     makeToken TOKEN_NUMBER
       (update_current
          (\<lambda>t. t\<lparr>value_t := Number (if isHex then parseInt16 (tokenStart p)
                                     else parseFloat (tokenStart p))\<rparr>) p)"

text \<open>\<open>while (this.readHexDigit() != -1) continue;\<close>\<close>

function hexDigits :: "parser \<Rightarrow> parser" where
  "hexDigits p =
     (if fst (readHexDigit p) \<noteq> Num (- 1) then hexDigits (snd (readHexDigit p))
      else snd (readHexDigit p))"
  by pat_completeness auto

definition remaining :: "parser \<Rightarrow> nat" where
  "remaining p = nat (int (length (source p)) - currentChar p)"

lemma remaining_nextChar:
  "peekChar p \<noteq> None \<Longrightarrow> remaining (snd (nextChar p)) < remaining p"
  by (auto simp: remaining_def nextChar_def peekChar_def char_at_def Let_def split: if_splits)

lemma readHexDigit_consumes:
  "fst (readHexDigit p) \<noteq> Num (- 1) \<Longrightarrow> remaining (snd (readHexDigit p)) < remaining p"
  by (auto simp: readHexDigit_def remaining_def nextChar_def peekChar_def char_at_def
        between_def Let_def split: if_splits option.splits)

termination hexDigits
  by (relation "measure remaining") (simp_all add: readHexDigit_consumes)

declare hexDigits.simps [simp del]

definition readHexNumber :: "parser \<Rightarrow> parser" where
  "readHexNumber p = makeNumber True (hexDigits (snd (nextChar p)))"

text \<open>\<open>while (this.isDigit(this.peekChar())) this.nextChar();\<close>\<close>

function digits :: "parser \<Rightarrow> parser" where
  "digits p = (if isDigit (peekChar p) then digits (snd (nextChar p)) else p)"
  by pat_completeness auto

termination digits
  by (relation "measure remaining")
     (auto simp: isDigit_def between_def intro!: remaining_nextChar split: option.splits)

declare digits.simps [simp del]

text \<open>The three parts of \<open>readNumber\<close>: the fraction (lines 302-305), the exponent
  (lines 308-317, where \<open>||\<close> calls the second \<open>matchChar\<close> only if the first fails)
  and what follows the exponent marker (lines 310-316).\<close>

definition readFraction :: "parser \<Rightarrow> parser" where
  "readFraction p =
     (if peekChar p = Some CHR ''.'' \<and> isDigit (peekNextChar p)
      then digits (snd (nextChar p)) else p)"

definition readExponentDigits :: "parser \<Rightarrow> parser" where
  "readExponentDigits p =
     (let p1 = snd (matchChar CHR ''-'' p);
          p2 = (if \<not> isDigit (peekChar p1)
                then lexError ''Unterminated scientific notation.'' p1 else p1)
      in digits p2)"

definition readExponent :: "parser \<Rightarrow> parser" where
  "readExponent p =
     (let (m1, p1) = matchChar CHR ''e'' p;
          (m2, p2) = (if m1 then (True, p1) else matchChar CHR ''E'' p1)
      in if m2 then readExponentDigits p2 else p2)"

definition readNumber :: "parser \<Rightarrow> parser" where
  "readNumber p = makeNumber False (readExponent (readFraction (digits p)))"

subsection \<open>Names (lines 323-340)\<close>

function nameChars :: "parser \<Rightarrow> parser" where
  "nameChars p =
     (if isName (peekChar p) \<or> isDigit (peekChar p) then nameChars (snd (nextChar p)) else p)"
  by pat_completeness auto

termination nameChars
  by (relation "measure remaining")
     (auto simp: isName_def isDigit_def between_def intro!: remaining_nextChar
        split: option.splits)

declare nameChars.simps [simp del]

definition readName :: "TokenType \<Rightarrow> parser \<Rightarrow> parser" where
  "readName ty p =
     (let p1 = nameChars p;
          len = currentChar p1 - tokenStart p1;
          name = substr (source p1) (tokenStart p1) len;
          ty' = (case find (\<lambda>(ident, n, tt). length name = n \<and> Some name = ident) keywords_table of
                   Some (ident, n, tt) \<Rightarrow> tt
                 | None \<Rightarrow> ty)
      in makeToken ty' p1)"

subsection \<open>Strings (lines 343-447)\<close>

text \<open>\<open>readHexEscape\<close>: the first argument counts the iterations the \<open>for\<close> loop has left.\<close>

fun readHexEscape_loop :: "nat \<Rightarrow> int \<Rightarrow> string \<Rightarrow> parser \<Rightarrow> int \<times> parser" where
  "readHexEscape_loop 0 v description p = (v, p)"
| "readHexEscape_loop (Suc n) v description p =
     (if peekChar p = Some DQUOTE \<or> peekChar p = Some NUL then
        (let p1 = lexError (''Incomplete '' @ description @ '' escape sequence.'') p
         in (v, p1\<lparr>currentChar := currentChar p1 - 1\<rparr>))
      else
        (let (digit, p1) = readHexDigit p in
         if digit = Num (- 1)
         then (v, lexError (''Invalid '' @ description @ '' escape sequence.'') p1)
         else readHexEscape_loop n (bitor32 (v * 16) digit) description p1))"

definition readHexEscape :: "nat \<Rightarrow> string \<Rightarrow> parser \<Rightarrow> int \<times> parser" where
  "readHexEscape n description p = readHexEscape_loop n 0 description p"

text \<open>The body of \<open>if (c == '\\')\<close> in \<open>readString\<close> (lines 415-438).\<close>

definition readEscape :: "parser \<Rightarrow> parser" where
  "readEscape p =
     (let p1 = p\<lparr>logged := logged p @ [123]\<rparr>;
          (e, p2) = nextChar p1 in
      if e = Some CHR ''t'' then update_current (\<lambda>t. t\<lparr>value_t := Str [TAB]\<rparr>) p2
      else if e = Some CHR ''v'' then update_current (\<lambda>t. t\<lparr>value_t := Str [CHR 0x0B]\<rparr>) p2
      else if e = Some CHR ''x'' then
        (let (v, p3) = readHexEscape 2 ''byte'' p2
         in update_current (\<lambda>t. t\<lparr>value_t := Number (Num v)\<rparr>) p3)
      else lexError (''Invalid escape character '' @ [CHR 0x27] @
                     string_of_int (currentChar p2 - 1) @ [CHR 0x27] @ ''.'') p2)"

text \<open>The \<open>for (;;)\<close> loop of \<open>readString\<close>; it returns the token type with the state.\<close>

partial_function (option) readString_loop :: "parser \<Rightarrow> (TokenType \<times> parser) option" where
  "readString_loop p =
     (let (c, p1) = nextChar p in
      if c = Some DQUOTE then Some (TOKEN_STRING, p1)
      else if c = Some NUL then
        (let p2 = lexError ''Unterminated string.'' p1
         in Some (TOKEN_STRING, p2\<lparr>currentChar := currentChar p2 - 1\<rparr>))
      else if c = Some CHR ''%'' \<and> numParens p1 < MAX_INTERPOLATION_NESTING then
        (let (c2, p2) = nextChar p1;
             p3 = (if c2 \<noteq> Some CHR ''('' then
                     lexError (''Expect '' @ [CHR 0x27] @ ''('' @ [CHR 0x27] @ '' after '' @
                               [CHR 0x27] @ ''%%'' @ [CHR 0x27] @ ''.'') p2
                   else p2)
         in Some (TOKEN_INTERPOLATION,
                  p3\<lparr>parens := (parens p3)[numParens p3 := Some 1],
                     numParens := numParens p3 + 1\<rparr>))
      else
        (let p2 = (if c = Some CHR ''%'' then
                     lexError (''Interpolation may only nest '' @
                               digits_of MAX_INTERPOLATION_NESTING @ '' levels deep.'') p1
                   else p1)
         in if c = Some BACKSLASH then readString_loop (readEscape p2)
            else readString_loop p2))"

definition readString :: "parser \<Rightarrow> parser option" where
  "readString p = map_option (\<lambda>(ty, p1). makeToken ty p1) (readString_loop p)"

subsection \<open>\<open>nextToken\<close> (lines 450-623)\<close>

text \<open>The loop of \<open>case ' ': case '\r': case '\t':\<close> (lines 560-565).\<close>

function blanks :: "parser \<Rightarrow> parser" where
  "blanks p =
     (if peekChar p = Some CHR '' '' \<or> peekChar p = Some CR \<or> peekChar p = Some TAB
      then blanks (snd (nextChar p)) else p)"
  by pat_completeness auto

termination blanks
  by (relation "measure remaining") (auto intro!: remaining_nextChar)

declare blanks.simps [simp del]

text \<open>The cases of the \<open>switch\<close> that are \<open>this.makeToken(T); return;\<close> (lines 485-497).\<close>

definition punctuation :: "char \<Rightarrow> TokenType option" where
  "punctuation x =
     (if x = CHR ''['' then Some TOKEN_LEFT_BRACKET
      else if x = CHR '']'' then Some TOKEN_RIGHT_BRACKET
      else if x = CHR ''{'' then Some TOKEN_LEFT_BRACE
      else if x = CHR ''}'' then Some TOKEN_RIGHT_BRACE
      else if x = CHR '':'' then Some TOKEN_COLON
      else if x = CHR '','' then Some TOKEN_COMMA
      else if x = CHR ''*'' then Some TOKEN_STAR
      else if x = CHR ''%'' then Some TOKEN_PERCENT
      else if x = CHR ''^'' then Some TOKEN_CARET
      else if x = CHR ''+'' then Some TOKEN_PLUS
      else if x = CHR ''-'' then Some TOKEN_MINUS
      else if x = CHR ''~'' then Some TOKEN_TILDE
      else if x = CHR ''?'' then Some TOKEN_QUESTION
      else None)"

text \<open>The cases that are \<open>this.twoCharToken(c, two, one); return;\<close> (lines 499-502).\<close>

definition twoChar :: "char \<Rightarrow> (char \<times> TokenType \<times> TokenType) option" where
  "twoChar x =
     (if x = CHR ''|'' then Some (CHR ''|'', TOKEN_PIPEPIPE, TOKEN_PIPE)
      else if x = CHR ''&'' then Some (CHR ''&'', TOKEN_AMPAMP, TOKEN_AMP)
      else if x = CHR ''='' then Some (CHR ''='', TOKEN_EQEQ, TOKEN_EQ)
      else if x = CHR ''!'' then Some (CHR ''='', TOKEN_BANGEQ, TOKEN_BANG)
      else None)"

text \<open>\<open>this.parens[this.numParens - 1]++\<close> and \<open>--this.parens[this.numParens - 1]\<close>; a slot
  never written holds \<open>undefined\<close>, which both turn into NaN (\<open>None\<close> stands for either).\<close>

definition top_add :: "int \<Rightarrow> parser \<Rightarrow> parser" where
  "top_add d p =
     p\<lparr>parens := (parens p)[numParens p - 1 :=
                    map_option (\<lambda>n. n + d) (parens p ! (numParens p - 1))]\<rparr>"

text \<open>The error branch of the \<open>default\<close> case (lines 600-615). It assigns to
  \<open>this.current\<close> without \<open>makeToken\<close>, so nothing is pushed onto \<open>this.tokens\<close>.\<close>

definition invalidChar :: "char option \<Rightarrow> parser \<Rightarrow> parser" where
  "invalidChar c p =
     (let p1 = (if (case toNumber c of NaN \<Rightarrow> False | Num n \<Rightarrow> 32 \<le> n \<and> n \<le> 126)
                then lexError (''Invalid character '' @ [CHR 0x27] @ show_char c @
                               [CHR 0x27] @ ''.'') p
                else lexError (''Invalid byte 0x'' @ show_char c @ ''.'') p)
      in update_current (\<lambda>t. t\<lparr>type_t := Some TOKEN_ERROR, length_t := 0\<rparr>) p1)"

text \<open>How one pass through the \<open>switch\<close> ends: \<open>return\<close>, or \<open>break\<close> back to the
  \<open>while\<close> loop.\<close>

datatype flow = Return parser | Break parser

text \<open>The \<open>switch (c)\<close> statement; \<open>c\<close> is what \<open>nextChar\<close> returned and \<open>p\<close> the state
  after it. \<open>undefined\<close> matches no case label and goes to \<open>default\<close>.\<close>

definition lexChar :: "char option \<Rightarrow> parser \<Rightarrow> flow option" where
  "lexChar c p =
     (if c = Some CHR ''('' then
        Some (Return (makeToken TOKEN_LEFT_PAREN (if numParens p > 0 then top_add 1 p else p)))
      else if c = Some CHR '')'' then
        (if numParens p > 0 then
           (let p1 = top_add (- 1) p in
            if parens p1 ! (numParens p1 - 1) = Some 0
            then map_option Return (readString (p1\<lparr>numParens := numParens p1 - 1\<rparr>))
            else Some (Return (makeToken TOKEN_RIGHT_PAREN p1)))
         else Some (Return (makeToken TOKEN_RIGHT_PAREN p)))
      else if c \<noteq> None \<and> punctuation (the c) \<noteq> None then
        Some (Return (makeToken (the (punctuation (the c))) p))
      else if c \<noteq> None \<and> twoChar (the c) \<noteq> None then
        (case the (twoChar (the c)) of (x, two, one) \<Rightarrow> Some (Return (twoCharToken x two one p)))
      else if c = Some CHR ''.'' then
        (let (m, p1) = matchChar CHR ''.'' p in
         if m then Some (Return (twoCharToken CHR ''.'' TOKEN_DOTDOTDOT TOKEN_DOTDOT p1))
         else Some (Return (makeToken TOKEN_DOT p1)))
      else if c = Some CHR ''/'' then
        (let (m, p1) = matchChar CHR ''/'' p in
         if m then map_option Break (skipLineComment p1)
         else
           (let (m2, p2) = matchChar CHR ''*'' p1 in
            if m2 then map_option Break (skipBlockComment p2)
            else Some (Return (makeToken TOKEN_SLASH p2))))
      else if c = Some CHR ''<'' then
        (let (m, p1) = matchChar CHR ''<'' p in
         if m then Some (Return (makeToken TOKEN_LTLT p1))
         else Some (Return (twoCharToken CHR ''='' TOKEN_LTEQ TOKEN_LT p1)))
      else if c = Some CHR ''>'' then
        (let (m, p1) = matchChar CHR ''>'' p in
         if m then Some (Return (makeToken TOKEN_GTGT p1))
         else Some (Return (twoCharToken CHR ''='' TOKEN_GTEQ TOKEN_GT p1)))
      else if c = Some LF then Some (Return (makeToken TOKEN_LINE p))
      else if c = Some CHR '' '' \<or> c = Some CR \<or> c = Some TAB then Some (Break (blanks p))
      else if c = Some DQUOTE then map_option Return (readString p)
      else if c = Some CHR ''_'' then
        Some (Return (readName (if peekChar p = Some CHR ''_'' then TOKEN_STATIC_FIELD
                                else TOKEN_FIELD) p))
      else if c = Some CHR ''0'' then
        (if peekChar p = Some CHR ''x'' then Some (Return (readHexNumber p))
         else Some (Return (readNumber p)))
      else if currentLine p = 1 \<and> c = Some CHR ''#'' \<and> peekChar p = Some CHR ''!'' then
        map_option Break (skipLineComment p)
      else if isName c then Some (Return (readName TOKEN_NAME p))
      else if isDigit c then Some (Return (readNumber p))
      else Some (Return (invalidChar c p)))"

text \<open>The \<open>while (this.peekChar() != '\0')\<close> loop and the EOF token after it.\<close>

partial_function (option) scan :: "parser \<Rightarrow> parser option" where
  "scan p =
     (if peekChar p \<noteq> Some NUL then
        (let (c, p1) = nextChar (p\<lparr>tokenStart := currentChar p\<rparr>) in
         case lexChar c p1 of
           None \<Rightarrow> None
         | Some (Return p2) \<Rightarrow> Some p2
         | Some (Break p2) \<Rightarrow> scan p2)
      else Some (makeToken TOKEN_EOF (p\<lparr>tokenStart := currentChar p\<rparr>)))"

definition nextToken :: "parser \<Rightarrow> parser option" where
  "nextToken p =
     (let p1 = p\<lparr>previous := current p\<rparr> in
      if type_t (store p1 ! current p1) = Some TOKEN_EOF then Some p1 else scan p1)"

subsection \<open>The constructor's loop (lines 158-160)\<close>

text \<open>\<open>nextTokens n\<close> is \<open>n\<close> calls of \<open>nextToken\<close> in sequence; it returns only if each
  of them does.\<close>

fun nextTokens :: "nat \<Rightarrow> parser \<Rightarrow> parser option" where
  "nextTokens 0 p = Some p"
| "nextTokens (Suc n) p = Option.bind (nextToken p) (nextTokens n)"

definition Parser :: "string \<Rightarrow> parser option" where
  "Parser src = nextTokens 85 (init src)"

declare skipLineComment.simps [code] skipBlockComment_loop.simps [code]
  readString_loop.simps [code] scan.simps [code]

section \<open>Predicates and inputs of the statements\<close>

text \<open>A state past the end of its source whose current token is not EOF.\<close>

definition past_end :: "parser \<Rightarrow> bool" where
  "past_end p \<longleftrightarrow> int (length (source p)) \<le> currentChar p \<and> current p < length (store p)
     \<and> type_t (store p ! current p) \<noteq> Some TOKEN_EOF"

text \<open>A well-formed interpolation stack: the array has its eight slots, the depth is
  within it, and every level in use holds a count of at least one unmatched \<open>(\<close>.\<close>

definition stack_ok :: "parser \<Rightarrow> bool" where
  "stack_ok p \<longleftrightarrow> length (parens p) = MAX_INTERPOLATION_NESTING
     \<and> numParens p \<le> MAX_INTERPOLATION_NESTING
     \<and> list_all (\<lambda>x. case x of None \<Rightarrow> False | Some n \<Rightarrow> 1 \<le> n)
          (take (numParens p) (parens p))"

text \<open>What the character-level helpers keep: everything the token under construction
  depends on, with the cursor not moving back.\<close>

definition frame :: "parser \<Rightarrow> parser \<Rightarrow> bool" where
  "frame p q \<longleftrightarrow> source q = source p \<and> tokenStart q = tokenStart p \<and> current q = current p
     \<and> previous q = previous p \<and> length (store q) = length (store p) \<and> tokens q = tokens p
     \<and> numParens q = numParens p \<and> parens q = parens p \<and> currentChar p \<le> currentChar q"

text \<open>What the loop of \<open>readString\<close> leaves: the fields of \<open>frame\<close> except that an
  interpolation pushes one level, and only below the maximum.\<close>

definition string_read :: "parser \<Rightarrow> TokenType \<Rightarrow> parser \<Rightarrow> bool" where
  "string_read p ty q \<longleftrightarrow> source q = source p \<and> tokenStart q = tokenStart p
     \<and> current q = current p \<and> previous q = previous p \<and> length (store q) = length (store p)
     \<and> tokens q = tokens p \<and> currentChar p \<le> currentChar q
     \<and> (ty = TOKEN_STRING \<and> numParens q = numParens p \<and> parens q = parens p
        \<or> ty = TOKEN_INTERPOLATION \<and> numParens q = numParens p + 1
           \<and> numParens p < MAX_INTERPOLATION_NESTING
           \<and> parens q = (parens p)[numParens p := Some 1])"

text \<open>As \<open>frame\<close>, except that the stack may change, within its bound and staying
  well-formed.\<close>

definition loose :: "parser \<Rightarrow> parser \<Rightarrow> bool" where
  "loose p q \<longleftrightarrow> source q = source p \<and> tokenStart q = tokenStart p \<and> current q = current p
     \<and> previous q = previous p \<and> length (store q) = length (store p) \<and> tokens q = tokens p
     \<and> currentChar p \<le> currentChar q
     \<and> (numParens p \<le> MAX_INTERPOLATION_NESTING \<longrightarrow> numParens q \<le> MAX_INTERPOLATION_NESTING)
     \<and> (stack_ok p \<longrightarrow> stack_ok q)"

text \<open>\<open>q\<close> is \<open>makeToken\<close> applied to a state that \<open>p\<close> led to.\<close>

definition tokenized :: "parser \<Rightarrow> parser \<Rightarrow> bool" where
  "tokenized p q \<longleftrightarrow> (\<exists>ty q0. q = makeToken ty q0 \<and> ty \<noteq> TOKEN_ERROR \<and> loose p q0)"

text \<open>The state in which one call makes its token, seen from the state \<open>p\<close> in which
  the \<open>while\<close> loop was entered: the token starts at or after the cursor of \<open>p\<close>.\<close>

definition reached :: "parser \<Rightarrow> parser \<Rightarrow> bool" where
  "reached p q \<longleftrightarrow> source q = source p \<and> current q = current p \<and> previous q = previous p
     \<and> length (store q) = length (store p) \<and> tokens q = tokens p
     \<and> currentChar p \<le> tokenStart q \<and> tokenStart q \<le> currentChar q
     \<and> (numParens p \<le> MAX_INTERPOLATION_NESTING \<longrightarrow> numParens q \<le> MAX_INTERPOLATION_NESTING)
     \<and> (stack_ok p \<longrightarrow> stack_ok q)"

text \<open>The two ways the loop returns: a token made by \<open>makeToken\<close>, or the error branch
  one character after the token start.\<close>

definition scanned :: "parser \<Rightarrow> parser \<Rightarrow> bool" where
  "scanned p q \<longleftrightarrow>
     (\<exists>ty q0. q = makeToken ty q0 \<and> ty \<noteq> TOKEN_ERROR \<and> reached p q0)
     \<or> (\<exists>c q0. q = invalidChar c q0 \<and> reached p q0 \<and> currentChar q0 = tokenStart q0 + 1)"




text \<open>Nine strings nested by interpolation, closed again, followed by \<open>+ y\<close> and NUL.\<close>

definition nine_deep :: string where
  "nine_deep = concat (replicate 9 (DQUOTE # ''%('')) @ ''x'' @
               concat (replicate 9 ('')'' @ [DQUOTE])) @ '' + y'' @ [NUL]"

text \<open>The source text \<open>"a %(1+2) b"\<close>, quotes included.\<close>

definition interpolated :: string where
  "interpolated = DQUOTE # ''a %(1+2) b'' @ [DQUOTE]"

text \<open>A string whose interpolation holds nested parentheses, followed by a \<open>)\<close> outside
  it: \<open>"%((1))" )\<close>.\<close>

definition nested_parens :: string where
  "nested_parens = DQUOTE # ''%((1))'' @ [DQUOTE] @ '' )''"


subsection \<open>Skipped spans, following the specification\<close>










section \<open>Past the end of the source\<close>

text \<open>Indexing past the end gives \<open>undefined\<close>, which is no case label of the \<open>switch\<close>,
  no name character and no digit: the \<open>default\<close> case reports an invalid byte.\<close>

lemma peekChar_past_end: "int (length (source p)) \<le> currentChar p \<Longrightarrow> peekChar p = None"
  by (simp add: peekChar_def char_at_def)

lemma nextChar_undefined:
  "peekChar p = None \<Longrightarrow> nextChar p = (None, p\<lparr>currentChar := currentChar p + 1\<rparr>)"
  by (simp add: nextChar_def Let_def)

lemma lexChar_undefined: "lexChar None p = Some (Return (invalidChar None p))"
  by (simp add: lexChar_def isName_def isDigit_def between_def)

lemma scan_past_end:
  assumes "int (length (source p)) \<le> currentChar p"
  shows "scan p = Some (invalidChar None
           (p\<lparr>tokenStart := currentChar p, currentChar := currentChar p + 1\<rparr>))"
proof -
  have pk: "peekChar p = None" using assms by (rule peekChar_past_end)
  have pk': "peekChar (p\<lparr>tokenStart := currentChar p\<rparr>) = None"
    using assms by (simp add: peekChar_def char_at_def)
  show ?thesis
    by (subst scan.simps) (simp add: pk nextChar_undefined[OF pk'] lexChar_undefined)
qed

lemma nextToken_past_end:
  assumes "past_end p"
  shows "\<exists>p'. nextToken p = Some p' \<and> past_end p' \<and> tokens p' = tokens p
           \<and> currentChar p' = currentChar p + 1
           \<and> type_t (store p' ! current p') = Some TOKEN_ERROR"
  using assms
  by (simp add: nextToken_def past_end_def scan_past_end invalidChar_def update_current_def
      lexError_def Let_def)

lemma nextTokens_past_end:
  "past_end p \<Longrightarrow> \<exists>p'. nextTokens (Suc n) p = Some p' \<and> past_end p' \<and> tokens p' = tokens p
      \<and> currentChar p' = currentChar p + 1 + int n
      \<and> type_t (store p' ! current p') = Some TOKEN_ERROR"
proof (induction n arbitrary: p)
  case 0
  then show ?case using nextToken_past_end[of p] by auto
next
  case (Suc n)
  from nextToken_past_end[OF Suc.prems] obtain q
    where q: "nextToken p = Some q" "past_end q" "tokens q = tokens p"
      "currentChar q = currentChar p + 1" by blast
  from Suc.IH[OF q(2)] show ?case using q(1) q(3) q(4) by auto
qed

text \<open>\<open>skipLineComment\<close> returns only from a position inside the string: past the end it
  keeps advancing.\<close>

lemma skipLineComment_returns_inside:
  assumes "skipLineComment p = Some y"
  shows "currentChar p < int (length (source p))"
proof (rule skipLineComment.raw_induct
    [where P = "\<lambda>x y. currentChar x < int (length (source x))", OF _ assms])
  fix f x y
  assume IH: "\<And>x y. f x = Some y \<Longrightarrow> currentChar x < int (length (source x))"
    and step: "(if peekChar x \<noteq> Some LF \<and> peekChar x \<noteq> Some NUL
                then f (snd (nextChar x)) else Some x) = Some y"
  show "currentChar x < int (length (source x))"
  proof (rule ccontr)
    assume "\<not> currentChar x < int (length (source x))"
    then have e: "int (length (source x)) \<le> currentChar x" by simp
    then have pk: "peekChar x = None" by (rule peekChar_past_end)
    with step have "f (snd (nextChar x)) = Some y" by simp
    from IH[OF this] e show False by (simp add: nextChar_undefined[OF pk])
  qed
qed

lemma skipLineComment_past_end:
  "int (length (source p)) \<le> currentChar p \<Longrightarrow> skipLineComment p = None"
  using skipLineComment_returns_inside[of p] by (cases "skipLineComment p") fastforce+

section \<open>What a call keeps and what it makes\<close>

lemma stack_ok_iff:
  "stack_ok p \<longleftrightarrow> length (parens p) = MAX_INTERPOLATION_NESTING
     \<and> numParens p \<le> MAX_INTERPOLATION_NESTING
     \<and> (\<forall>i<numParens p. \<exists>n. parens p ! i = Some n \<and> 1 \<le> n)"
proof -
  have c: "(case x of None \<Rightarrow> False | Some n \<Rightarrow> 1 \<le> n) \<longleftrightarrow> (\<exists>n. x = Some n \<and> 1 \<le> n)"
    for x :: "int option"
    by (cases x) auto
  have "list_all (\<lambda>x. case x of None \<Rightarrow> False | Some n \<Rightarrow> 1 \<le> n) (take k xs) \<longleftrightarrow>
        (\<forall>i<k. \<exists>n. xs ! i = Some n \<and> 1 \<le> n)"
    if "k \<le> length xs" for k and xs :: "int option list"
    using that by (simp add: list_all_length c)
  then show ?thesis unfolding stack_ok_def by auto
qed

lemma stack_ok_same:
  "parens q = parens p \<Longrightarrow> numParens q = numParens p \<Longrightarrow> stack_ok q = stack_ok p"
  by (simp add: stack_ok_def)

lemma numParens_top_add [simp]: "numParens (top_add d p) = numParens p"
  by (simp add: top_add_def)

lemma frame_refl: "frame p p"
  by (simp add: frame_def)

lemma frame_trans: "frame p q \<Longrightarrow> frame q r \<Longrightarrow> frame p r"
  by (simp add: frame_def)

lemma frame_nextChar: "frame p (snd (nextChar p))"
  by (simp add: frame_def nextChar_def Let_def)

lemma frame_matchChar: "frame p (snd (matchChar c p))"
  by (simp add: matchChar_def frame_refl frame_nextChar)

lemma frame_lexError: "frame p (lexError m p)"
  by (simp add: frame_def lexError_def)

lemma frame_update_current: "frame p (update_current f p)"
  by (simp add: frame_def update_current_def)

lemma frame_readHexDigit: "frame p (snd (readHexDigit p))"
  by (simp add: frame_def readHexDigit_def nextChar_def Let_def split: prod.splits)

lemma frame_digits: "frame p (digits p)"
proof (induction p rule: digits.induct)
  case (1 p)
  show ?case
  proof (cases "isDigit (peekChar p)")
    case True
    with 1 have "frame (snd (nextChar p)) (digits (snd (nextChar p)))" by simp
    with frame_nextChar[of p] have "frame p (digits (snd (nextChar p)))" by (rule frame_trans)
    with True show ?thesis by (subst digits.simps) simp
  next
    case False
    then show ?thesis by (subst digits.simps) (simp add: frame_refl)
  qed
qed

lemma frame_nameChars: "frame p (nameChars p)"
proof (induction p rule: nameChars.induct)
  case (1 p)
  show ?case
  proof (cases "isName (peekChar p) \<or> isDigit (peekChar p)")
    case True
    with 1 have "frame (snd (nextChar p)) (nameChars (snd (nextChar p)))" by simp
    with frame_nextChar[of p] have "frame p (nameChars (snd (nextChar p)))" by (rule frame_trans)
    with True show ?thesis by (subst nameChars.simps) simp
  next
    case False
    then show ?thesis by (subst nameChars.simps) (simp add: frame_refl)
  qed
qed

lemma frame_blanks: "frame p (blanks p)"
proof (induction p rule: blanks.induct)
  case (1 p)
  show ?case
  proof (cases "peekChar p = Some CHR '' '' \<or> peekChar p = Some CR \<or> peekChar p = Some TAB")
    case True
    with 1 have "frame (snd (nextChar p)) (blanks (snd (nextChar p)))" by simp
    with frame_nextChar[of p] have "frame p (blanks (snd (nextChar p)))" by (rule frame_trans)
    with True show ?thesis by (subst blanks.simps) simp
  next
    case False
    then show ?thesis by (subst blanks.simps) (simp add: frame_refl)
  qed
qed

lemma frame_hexDigits: "frame p (hexDigits p)"
proof (induction p rule: hexDigits.induct)
  case (1 p)
  show ?case
  proof (cases "fst (readHexDigit p) \<noteq> Num (- 1)")
    case True
    with 1 have "frame (snd (readHexDigit p)) (hexDigits (snd (readHexDigit p)))" by simp
    with frame_readHexDigit[of p] have "frame p (hexDigits (snd (readHexDigit p)))"
      by (rule frame_trans)
    with True show ?thesis by (subst hexDigits.simps) simp
  next
    case False
    then show ?thesis by (subst hexDigits.simps) (simp add: frame_readHexDigit)
  qed
qed

lemma frame_skipLineComment:
  assumes "skipLineComment p = Some q"
  shows "frame p q"
proof (rule skipLineComment.raw_induct[where P = frame, OF _ assms])
  fix f x y
  assume IH: "\<And>x y. f x = Some y \<Longrightarrow> frame x y"
    and step: "(if peekChar x \<noteq> Some LF \<and> peekChar x \<noteq> Some NUL
                then f (snd (nextChar x)) else Some x) = Some y"
  show "frame x y"
  proof (cases "peekChar x \<noteq> Some LF \<and> peekChar x \<noteq> Some NUL")
    case True
    with step have "f (snd (nextChar x)) = Some y" by simp
    from frame_trans[OF frame_nextChar IH[OF this]] show ?thesis .
  next
    case False
    with step show ?thesis by (auto simp: frame_refl)
  qed
qed

lemma frame_skipBlockComment_loop:
  assumes "skipBlockComment_loop n p = Some q"
  shows "frame p q"
proof (rule skipBlockComment_loop.raw_induct[where P = "\<lambda>n p q. frame p q", OF _ assms])
  fix f n x y
  assume IH: "\<And>n x y. f n x = Some y \<Longrightarrow> frame x y"
    and step: "(if 0 < n then
        if peekChar x = Some NUL then Some (lexError ''Unterminated block comment.'' x)
        else if peekChar x = Some CHR ''/'' \<and> peekNextChar x = Some CHR ''*''
          then f (n + 1) (snd (nextChar (snd (nextChar x))))
        else if peekChar x = Some CHR ''*'' \<and> peekNextChar x = Some CHR ''/''
          then f (n - 1) (snd (nextChar (snd (nextChar x))))
        else f n (snd (nextChar x))
      else Some x) = Some y"
  have two: "frame x (snd (nextChar (snd (nextChar x))))"
    by (rule frame_trans[OF frame_nextChar frame_nextChar])
  from step show "frame x y"
    by (auto split: if_splits intro: frame_refl frame_lexError
        frame_trans[OF two IH] frame_trans[OF frame_nextChar IH])
qed

lemma frame_skipBlockComment: "skipBlockComment p = Some q \<Longrightarrow> frame p q"
  by (simp add: skipBlockComment_def frame_skipBlockComment_loop)

lemma frame_readHexEscape_loop:
  "frame (p\<lparr>currentChar := currentChar p - 1\<rparr>) (snd (readHexEscape_loop n v d p))"
proof (induction n arbitrary: v p)
  case 0
  show ?case by (simp add: frame_def)
next
  case (Suc n)
  show ?case
  proof (cases "peekChar p = Some DQUOTE \<or> peekChar p = Some NUL")
    case True
    then show ?thesis by (auto simp: frame_def lexError_def Let_def)
  next
    case False
    obtain digit p1 where r: "readHexDigit p = (digit, p1)" by (cases "readHexDigit p")
    with frame_readHexDigit[of p] have f1: "frame p p1" by simp
    show ?thesis
    proof (cases "digit = Num (- 1)")
      case True
      with False r f1 show ?thesis by (auto simp: frame_def lexError_def)
    next
      case d: False
      from Suc[of p1 "bitor32 (v * 16) digit"] f1
      have "frame (p\<lparr>currentChar := currentChar p - 1\<rparr>)
              (snd (readHexEscape_loop n (bitor32 (v * 16) digit) d p1))"
        by (simp add: frame_def)
      with False r d show ?thesis by simp
    qed
  qed
qed

lemma frame_readEscape: "frame p (readEscape p)"
proof -
  let ?p1 = "p\<lparr>logged := logged p @ [123]\<rparr>"
  obtain e p2 where n: "nextChar ?p1 = (e, p2)" by (cases "nextChar ?p1")
  have f2: "frame p p2" and c2: "currentChar p2 = currentChar p + 1"
    using n by (auto simp: frame_def nextChar_def Let_def split: if_splits)
  obtain v p3 where h: "readHexEscape 2 ''byte'' p2 = (v, p3)" by (cases "readHexEscape 2 ''byte'' p2")
  from frame_readHexEscape_loop[of p2 2 0 "''byte''"] h
  have "frame (p2\<lparr>currentChar := currentChar p2 - 1\<rparr>) p3" by (simp add: readHexEscape_def)
  with f2 c2 have f3: "frame p p3" by (simp add: frame_def)
  show ?thesis
    using n h f2 f3
    by (auto simp: readEscape_def Let_def
        intro: frame_trans[OF _ frame_update_current] frame_trans[OF _ frame_lexError])
qed

lemma string_read_frame: "frame p p1 \<Longrightarrow> string_read p1 ty q \<Longrightarrow> string_read p ty q"
  by (auto simp: frame_def string_read_def)

lemma string_read_readString_loop:
  assumes "readString_loop p = Some (ty, q)"
  shows "string_read p ty q"
proof -
  have "case r of (ty, q) \<Rightarrow> string_read p ty q" if "readString_loop p = Some r" for r
  proof (rule readString_loop.raw_induct
      [where P = "\<lambda>p r. case r of (ty, q) \<Rightarrow> string_read p ty q", OF _ that])
    fix f x r
    assume IH: "\<And>x r. f x = Some r \<Longrightarrow> case r of (ty, q) \<Rightarrow> string_read x ty q"
      and step: "(let (c, p1) = nextChar x in
      if c = Some DQUOTE then Some (TOKEN_STRING, p1)
      else if c = Some NUL then
        (let p2 = lexError ''Unterminated string.'' p1
         in Some (TOKEN_STRING, p2\<lparr>currentChar := currentChar p2 - 1\<rparr>))
      else if c = Some CHR ''%'' \<and> numParens p1 < MAX_INTERPOLATION_NESTING then
        (let (c2, p2) = nextChar p1;
             p3 = (if c2 \<noteq> Some CHR ''('' then
                     lexError (''Expect '' @ [CHR 0x27] @ ''('' @ [CHR 0x27] @ '' after '' @
                               [CHR 0x27] @ ''%%'' @ [CHR 0x27] @ ''.'') p2
                   else p2)
         in Some (TOKEN_INTERPOLATION,
                  p3\<lparr>parens := (parens p3)[numParens p3 := Some 1],
                     numParens := numParens p3 + 1\<rparr>))
      else
        (let p2 = (if c = Some CHR ''%'' then
                     lexError (''Interpolation may only nest '' @
                               digits_of MAX_INTERPOLATION_NESTING @ '' levels deep.'') p1
                   else p1)
         in if c = Some BACKSLASH then f (readEscape p2)
            else f p2)) = Some r"
    obtain c p1 where n: "nextChar x = (c, p1)" by (cases "nextChar x")
    have f1: "frame x p1" and c1: "currentChar p1 = currentChar x + 1"
      using n by (auto simp: frame_def nextChar_def Let_def split: if_splits)
    obtain c2 p2 where n2: "nextChar p1 = (c2, p2)" by (cases "nextChar p1")
    have f2: "frame p1 p2" using n2 frame_nextChar[of p1] by simp
    consider (quote) "c = Some DQUOTE"
      | (nul) "c \<noteq> Some DQUOTE" "c = Some NUL"
      | (interp) "c \<noteq> Some DQUOTE" "c \<noteq> Some NUL" "c = Some CHR ''%''"
          "numParens p1 < MAX_INTERPOLATION_NESTING"
      | (other) "c \<noteq> Some DQUOTE" "c \<noteq> Some NUL"
          "\<not> (c = Some CHR ''%'' \<and> numParens p1 < MAX_INTERPOLATION_NESTING)"
      by blast
    then show "case r of (ty, q) \<Rightarrow> string_read x ty q"
    proof cases
      case quote
      with step n f1 show ?thesis by (auto simp: string_read_def frame_def)
    next
      case nul
      with step n f1 c1 show ?thesis
        by (auto simp: string_read_def frame_def lexError_def Let_def)
    next
      case interp
      with step n n2 f1 f2 show ?thesis
        by (auto simp: string_read_def frame_def lexError_def Let_def split: if_splits)
    next
      case other
      define p2' where "p2' = (if c = Some CHR ''%'' then
                     lexError (''Interpolation may only nest '' @
                               digits_of MAX_INTERPOLATION_NESTING @ '' levels deep.'') p1
                   else p1)"
      have fp: "frame x p2'" using f1 by (auto simp: p2'_def frame_def lexError_def)
      from other step n have s: "(if c = Some BACKSLASH then f (readEscape p2') else f p2') = Some r"
        by (auto simp: p2'_def Let_def split: if_splits)
      show ?thesis
      proof (cases "c = Some BACKSLASH")
        case True
        with s have "f (readEscape p2') = Some r" by simp
        from IH[OF this] frame_trans[OF fp frame_readEscape[of p2']]
        show ?thesis by (auto intro: string_read_frame)
      next
        case False
        with s have "f p2' = Some r" by simp
        from IH[OF this] fp show ?thesis by (auto intro: string_read_frame)
      qed
    qed
  qed
  from this[OF assms] show ?thesis by simp
qed

lemma loose_refl: "loose p p"
  by (simp add: loose_def)

lemma loose_frame: "loose p q \<Longrightarrow> frame q r \<Longrightarrow> loose p r"
  by (simp add: loose_def frame_def stack_ok_def)

lemma loose_top_incr: "loose p (top_add 1 p)"
  by (auto simp: loose_def stack_ok_iff top_add_def nth_list_update)

lemma loose_top_decr:
  assumes "0 < numParens p" "parens (top_add (- 1) p) ! (numParens p - Suc 0) \<noteq> Some 0"
  shows "loose p (top_add (- 1) p)"
proof -
  have "stack_ok (top_add (- 1) p)" if ok: "stack_ok p"
  proof -
    let ?k = "numParens p - Suc 0"
    from assms(1) have k: "?k < numParens p" by simp
    from ok have all: "\<forall>i<numParens p. \<exists>n. parens p ! i = Some n \<and> 1 \<le> n"
      and len': "length (parens p) = MAX_INTERPOLATION_NESTING"
      "numParens p \<le> MAX_INTERPOLATION_NESTING"
      by (simp_all add: stack_ok_iff)
    from all k obtain z where z: "parens p ! ?k = Some z" "1 \<le> z" by blast
    from k len' have len: "?k < length (parens p)" by simp
    from assms(2) z(1) len have "z \<noteq> 1" by (auto simp: top_add_def)
    with z(2) have "1 \<le> z - 1" by simp
    with ok z(1) len show ?thesis
      by (auto simp: stack_ok_iff top_add_def nth_list_update)
  qed
  then show ?thesis by (simp add: loose_def top_add_def)
qed

lemma tokenized_makeToken: "ty \<noteq> TOKEN_ERROR \<Longrightarrow> loose p q0 \<Longrightarrow> tokenized p (makeToken ty q0)"
  by (auto simp: tokenized_def)

lemma tokenized_twoCharToken:
  "two \<noteq> TOKEN_ERROR \<Longrightarrow> one \<noteq> TOKEN_ERROR \<Longrightarrow> loose p q0
   \<Longrightarrow> tokenized p (twoCharToken c two one q0)"
  by (auto simp: twoCharToken_def case_prod_beta
      intro!: tokenized_makeToken loose_frame[OF _ frame_matchChar])

lemma tokenized_makeNumber: "loose p q0 \<Longrightarrow> tokenized p (makeNumber h q0)"
  by (auto simp: makeNumber_def intro!: tokenized_makeToken loose_frame[OF _ frame_update_current])

lemma tokenized_readHexNumber: "loose p q0 \<Longrightarrow> tokenized p (readHexNumber q0)"
  by (auto simp: readHexNumber_def
      intro!: tokenized_makeNumber loose_frame[OF loose_frame[OF _ frame_nextChar] frame_hexDigits])

lemma frame_readFraction: "frame p (readFraction p)"
  by (auto simp: readFraction_def frame_refl intro: frame_trans[OF frame_nextChar frame_digits])

lemma frame_readExponentDigits: "frame p (readExponentDigits p)"
proof -
  let ?p1 = "snd (matchChar CHR ''-'' p)"
  have "frame p ?p1" by (rule frame_matchChar)
  moreover have "frame ?p1 (lexError ''Unterminated scientific notation.'' ?p1)"
    by (rule frame_lexError)
  ultimately show ?thesis
    by (auto simp: readExponentDigits_def Let_def
        intro: frame_trans[OF _ frame_digits] frame_trans)
qed

lemma frame_readExponent: "frame p (readExponent p)"
proof -
  let ?p1 = "snd (matchChar CHR ''e'' p)"
  let ?p2 = "snd (matchChar CHR ''E'' ?p1)"
  have f1: "frame p ?p1" by (rule frame_matchChar)
  have f2: "frame p ?p2" by (rule frame_trans[OF f1 frame_matchChar])
  from f1 f2 show ?thesis
    by (auto simp: readExponent_def Let_def case_prod_beta
        intro: frame_trans[OF _ frame_readExponentDigits])
qed

lemma tokenized_readNumber: "loose p q0 \<Longrightarrow> tokenized p (readNumber q0)"
  unfolding readNumber_def
  by (rule tokenized_makeNumber)
     (rule loose_frame[OF loose_frame[OF loose_frame[OF _ frame_digits] frame_readFraction]
        frame_readExponent])

lemma keyword_not_error:
  "find P keywords_table = Some (ident, n, tt) \<Longrightarrow> tt \<noteq> TOKEN_ERROR"
  by (auto simp: keywords_table_def split: if_splits)

lemma tokenized_readName:
  "ty \<noteq> TOKEN_ERROR \<Longrightarrow> loose p q0 \<Longrightarrow> tokenized p (readName ty q0)"
  by (auto simp: readName_def Let_def split: option.splits
      intro!: tokenized_makeToken loose_frame[OF _ frame_nameChars] dest: keyword_not_error)

lemma loose_string_read:
  "string_read p ty q \<Longrightarrow> loose p q"
  by (auto simp: string_read_def loose_def stack_ok_iff nth_list_update)

lemma loose_trans: "loose p q \<Longrightarrow> loose q r \<Longrightarrow> loose p r"
  by (simp add: loose_def)

lemma tokenized_readString:
  assumes "readString q0 = Some q" "loose p q0"
  shows "tokenized p q"
proof -
  from assms(1) obtain ty q1 where r: "readString_loop q0 = Some (ty, q1)" "q = makeToken ty q1"
    by (auto simp: readString_def)
  from string_read_readString_loop[OF r(1)]
  have "loose q0 q1" "ty \<noteq> TOKEN_ERROR"
    by (auto simp: string_read_def intro: loose_string_read)
  with assms(2) r(2) show ?thesis by (auto intro!: tokenized_makeToken intro: loose_trans)
qed

lemma punctuation_not_error: "punctuation x = Some ty \<Longrightarrow> ty \<noteq> TOKEN_ERROR"
  by (auto simp: punctuation_def split: if_splits)

lemma twoChar_not_error: "twoChar x = Some (y, two, one) \<Longrightarrow> two \<noteq> TOKEN_ERROR \<and> one \<noteq> TOKEN_ERROR"
  by (auto simp: twoChar_def split: if_splits)

lemma loose_popped:
  "0 < numParens p \<Longrightarrow> loose p ((top_add d p)\<lparr>numParens := numParens p - Suc 0\<rparr>)"
  by (auto simp: loose_def stack_ok_iff top_add_def nth_list_update)

lemma frame_line_comment:
  "skipLineComment (snd (matchChar x p)) = Some z \<Longrightarrow> frame p z"
  by (rule frame_trans[OF frame_matchChar frame_skipLineComment])

lemma frame_block_comment:
  "skipBlockComment (snd (matchChar y (snd (matchChar x p)))) = Some z \<Longrightarrow> frame p z"
  by (rule frame_trans[OF frame_trans[OF frame_matchChar frame_matchChar] frame_skipBlockComment])

lemmas tokenized_intros =
  tokenized_makeToken tokenized_twoCharToken tokenized_makeNumber tokenized_readHexNumber
  tokenized_readNumber tokenized_readName

lemma lexChar_outcome:
  assumes "lexChar c p = Some r"
  shows "case r of Break q \<Rightarrow> frame p q | Return q \<Rightarrow> tokenized p q \<or> q = invalidChar c p"
proof -
  have m: "loose p (snd (matchChar x p))" for x
    by (rule loose_frame[OF loose_refl frame_matchChar])
  have mm: "loose p (snd (matchChar y (snd (matchChar x p))))" for x y
    by (rule loose_frame[OF m frame_matchChar])
  have fm: "frame p (snd (matchChar x p))" for x by (rule frame_matchChar)
  from assms show ?thesis
    unfolding lexChar_def Let_def case_prod_beta
    by (auto split: if_splits
        simp: tokenized_intros loose_refl loose_top_incr loose_top_decr m mm frame_blanks
        dest!: punctuation_not_error twoChar_not_error
        dest: tokenized_readString[OF _ loose_popped] tokenized_readString[OF _ loose_refl]
          frame_skipLineComment frame_line_comment frame_block_comment)
qed

lemma reached_after_break:
  "frame p1 p2 \<Longrightarrow> source p1 = source x \<Longrightarrow> current p1 = current x \<Longrightarrow> previous p1 = previous x
   \<Longrightarrow> length (store p1) = length (store x) \<Longrightarrow> tokens p1 = tokens x
   \<Longrightarrow> numParens p1 = numParens x \<Longrightarrow> parens p1 = parens x
   \<Longrightarrow> currentChar x \<le> currentChar p1
   \<Longrightarrow> reached p2 q \<Longrightarrow> reached x q"
  by (simp add: frame_def reached_def stack_ok_def)

lemma scanned_after_break:
  "frame p1 p2 \<Longrightarrow> source p1 = source x \<Longrightarrow> current p1 = current x \<Longrightarrow> previous p1 = previous x
   \<Longrightarrow> length (store p1) = length (store x) \<Longrightarrow> tokens p1 = tokens x
   \<Longrightarrow> numParens p1 = numParens x \<Longrightarrow> parens p1 = parens x
   \<Longrightarrow> currentChar x \<le> currentChar p1
   \<Longrightarrow> scanned p2 q \<Longrightarrow> scanned x q"
  unfolding scanned_def by (blast intro: reached_after_break)

lemma scan_scanned:
  assumes "scan p = Some q"
  shows "scanned p q"
proof (rule scan.raw_induct[where P = scanned, OF _ assms])
  fix f x y
  assume IH: "\<And>x y. f x = Some y \<Longrightarrow> scanned x y"
    and step: "(if peekChar x \<noteq> Some NUL then
        (let (c, p1) = nextChar (x\<lparr>tokenStart := currentChar x\<rparr>) in
         case lexChar c p1 of
           None \<Rightarrow> None
         | Some (Return p2) \<Rightarrow> Some p2
         | Some (Break p2) \<Rightarrow> f p2)
      else Some (makeToken TOKEN_EOF (x\<lparr>tokenStart := currentChar x\<rparr>))) = Some y"
  show "scanned x y"
  proof (cases "peekChar x \<noteq> Some NUL")
    case False
    with step have "y = makeToken TOKEN_EOF (x\<lparr>tokenStart := currentChar x\<rparr>)" by simp
    moreover have "reached x (x\<lparr>tokenStart := currentChar x\<rparr>)"
      by (simp add: reached_def stack_ok_def)
    ultimately show ?thesis unfolding scanned_def by blast
  next
    case True
    obtain c p1 where n: "nextChar (x\<lparr>tokenStart := currentChar x\<rparr>) = (c, p1)"
      by (cases "nextChar (x\<lparr>tokenStart := currentChar x\<rparr>)")
    then have p1: "source p1 = source x" "current p1 = current x" "previous p1 = previous x"
      "length (store p1) = length (store x)" "tokens p1 = tokens x" "numParens p1 = numParens x"
      "parens p1 = parens x" "tokenStart p1 = currentChar x" "currentChar p1 = currentChar x + 1"
      by (auto simp: nextChar_def Let_def split: if_splits)
    from True step n obtain r where r: "lexChar c p1 = Some r"
      and s: "(case r of Return p2 \<Rightarrow> Some p2 | Break p2 \<Rightarrow> f p2) = Some y"
      by (auto split: option.splits)
    show ?thesis
    proof (cases r)
      case (Return p2)
      with s have y: "y = p2" by simp
      from lexChar_outcome[OF r] Return y have "tokenized p1 y \<or> y = invalidChar c p1" by simp
      then show ?thesis
      proof
        assume "tokenized p1 y"
        then obtain ty q0 where "y = makeToken ty q0" "ty \<noteq> TOKEN_ERROR" "loose p1 q0"
          by (auto simp: tokenized_def)
        moreover from this p1 have "reached x q0"
          by (simp add: reached_def loose_def stack_ok_def)
        ultimately show ?thesis unfolding scanned_def by blast
      next
        assume "y = invalidChar c p1"
        moreover from p1 have "reached x p1" "currentChar p1 = tokenStart p1 + 1"
          by (simp_all add: reached_def stack_ok_def)
        ultimately show ?thesis unfolding scanned_def by blast
      qed
    next
      case (Break p2)
      with s have "f p2 = Some y" by simp
      from IH[OF this] have sc: "scanned p2 y" .
      from lexChar_outcome[OF r] Break have "frame p1 p2" by simp
      from scanned_after_break[OF this p1(1-7) _ sc] p1(9) show ?thesis by simp
    qed
  qed
qed

text \<open>The fields \<open>makeToken\<close> and the error branch leave.\<close>

lemma makeToken_frame:
  "source (makeToken ty p) = source p \<and> tokenStart (makeToken ty p) = tokenStart p
   \<and> currentChar (makeToken ty p) = currentChar p \<and> current (makeToken ty p) = current p
   \<and> previous (makeToken ty p) = previous p \<and> numParens (makeToken ty p) = numParens p
   \<and> length (store (makeToken ty p)) = length (store p)
   \<and> length (tokens (makeToken ty p)) = Suc (length (tokens p))"
  by (simp add: makeToken_def update_current_def Let_def)


lemma invalidChar_frame:
  "source (invalidChar c p) = source p \<and> tokenStart (invalidChar c p) = tokenStart p
   \<and> currentChar (invalidChar c p) = currentChar p \<and> current (invalidChar c p) = current p
   \<and> previous (invalidChar c p) = previous p \<and> numParens (invalidChar c p) = numParens p
   \<and> length (store (invalidChar c p)) = length (store p)
   \<and> tokens (invalidChar c p) = tokens p"
  by (simp add: invalidChar_def update_current_def lexError_def Let_def)


lemma nextToken_cases:
  assumes "nextToken p = Some q"
  shows "type_t (store p ! current p) = Some TOKEN_EOF \<and> q = p\<lparr>previous := current p\<rparr>
         \<or> type_t (store p ! current p) \<noteq> Some TOKEN_EOF \<and> scanned (p\<lparr>previous := current p\<rparr>) q"
  using assms by (auto simp: nextToken_def Let_def dest: scan_scanned split: if_splits)

lemma nextTokens_count:
  "nextTokens n p = Some q \<Longrightarrow> length (tokens q) \<le> length (tokens p) + n"
proof (induction n arbitrary: p)
  case 0
  then show ?case by simp
next
  case (Suc n)
  then obtain p1 where s: "nextToken p = Some p1" "nextTokens n p1 = Some q"
    by (auto simp: bind_eq_Some_conv)
  from nextToken_cases[OF s(1)] have "length (tokens p1) \<le> Suc (length (tokens p))"
    by (auto simp: scanned_def reached_def makeToken_frame invalidChar_frame)
  with Suc.IH[OF s(2)] show ?case by simp
qed

lemma nextToken_numParens:
  assumes "nextToken p = Some q" "numParens p \<le> MAX_INTERPOLATION_NESTING"
  shows "numParens q \<le> MAX_INTERPOLATION_NESTING"
  using nextToken_cases[OF assms(1)] assms(2)
  by (auto simp: scanned_def reached_def makeToken_frame invalidChar_frame)

lemma nextTokens_numParens:
  "nextTokens n p = Some q \<Longrightarrow> numParens p \<le> MAX_INTERPOLATION_NESTING
   \<Longrightarrow> numParens q \<le> MAX_INTERPOLATION_NESTING"
proof (induction n arbitrary: p)
  case 0
  then show ?case by simp
next
  case (Suc n)
  then obtain p1 where s: "nextToken p = Some p1" "nextTokens n p1 = Some q"
    by (auto simp: bind_eq_Some_conv)
  from Suc.IH[OF s(2) nextToken_numParens[OF s(1) Suc.prems(2)]] show ?case .
qed

lemma scan_right_paren:
  assumes "peekChar p = Some CHR '')''"
  shows "scan p =
     (let p1 = p\<lparr>tokenStart := currentChar p, currentChar := currentChar p + 1\<rparr>;
          p2 = top_add (- 1) p1
      in if 0 < numParens p \<and> parens p2 ! (numParens p - 1) = Some 0
         then readString (p2\<lparr>numParens := numParens p - 1\<rparr>)
         else Some (makeToken TOKEN_RIGHT_PAREN (if 0 < numParens p then p2 else p1)))"
proof -
  have n: "nextChar (p\<lparr>tokenStart := currentChar p\<rparr>) =
      (Some CHR '')'', p\<lparr>tokenStart := currentChar p, currentChar := currentChar p + 1\<rparr>)"
    using assms by (simp add: nextChar_def peekChar_def Let_def LF_def)
  show ?thesis
    by (subst scan.simps)
       (auto simp: assms n NUL_def lexChar_def Let_def top_add_def split: option.splits)
qed

lemma readString_token:
  assumes "readString p = Some q"
  shows "\<exists>e. tokens q = tokens p @ [e] \<and> (type_e e = TOKEN_STRING \<or> type_e e = TOKEN_INTERPOLATION)"
proof -
  from assms obtain ty q1 where r: "readString_loop p = Some (ty, q1)" "q = makeToken ty q1"
    by (auto simp: readString_def)
  from string_read_readString_loop[OF r(1)]
  have "tokens q1 = tokens p" "ty = TOKEN_STRING \<or> ty = TOKEN_INTERPOLATION"
    by (auto simp: string_read_def)
  with r(2) show ?thesis by (auto simp: makeToken_def Let_def update_current_def)
qed

subsection \<open>The stack stays well-formed\<close>

lemma stack_ok_init: "stack_ok (init src)"
  by (simp add: stack_ok_def init_def MAX_INTERPOLATION_NESTING_def)

lemma stack_ok_makeToken: "stack_ok (makeToken ty p) = stack_ok p"
  by (rule stack_ok_same) (simp_all add: makeToken_def update_current_def Let_def)

lemma stack_ok_invalidChar: "stack_ok (invalidChar c p) = stack_ok p"
  by (rule stack_ok_same) (simp_all add: invalidChar_def update_current_def lexError_def Let_def)

lemma nextToken_stack_ok:
  assumes "nextToken p = Some q" "stack_ok p"
  shows "stack_ok q"
proof -
  have ok: "stack_ok (p\<lparr>previous := current p\<rparr>)" using assms(2) by (simp add: stack_ok_def)
  from nextToken_cases[OF assms(1)] show ?thesis
  proof
    assume "type_t (store p ! current p) = Some TOKEN_EOF \<and> q = p\<lparr>previous := current p\<rparr>"
    with ok show ?thesis by simp
  next
    assume "type_t (store p ! current p) \<noteq> Some TOKEN_EOF \<and> scanned (p\<lparr>previous := current p\<rparr>) q"
    with ok show ?thesis
      by (auto simp: scanned_def reached_def stack_ok_makeToken stack_ok_invalidChar)
  qed
qed

lemma nextTokens_stack_ok:
  "nextTokens n p = Some q \<Longrightarrow> stack_ok p \<Longrightarrow> stack_ok q"
proof (induction n arbitrary: p)
  case 0
  then show ?case by simp
next
  case (Suc n)
  then obtain p1 where s: "nextToken p = Some p1" "nextTokens n p1 = Some q"
    by (auto simp: bind_eq_Some_conv)
  from Suc.IH[OF s(2) nextToken_stack_ok[OF s(1) Suc.prems(2)]] show ?case .
qed

lemma stack_ok_top:
  assumes "stack_ok p" "0 < numParens p"
  shows "\<exists>n. parens p ! (numParens p - 1) = Some n \<and> 1 \<le> n"
    and "numParens p - 1 < length (parens p)"
proof -
  from assms(2) have k: "numParens p - 1 < numParens p" by simp
  from assms(1) have all: "\<forall>i<numParens p. \<exists>n. parens p ! i = Some n \<and> 1 \<le> n"
    and len: "length (parens p) = MAX_INTERPOLATION_NESTING"
      "numParens p \<le> MAX_INTERPOLATION_NESTING"
    by (simp_all add: stack_ok_iff)
  from all k show "\<exists>n. parens p ! (numParens p - 1) = Some n \<and> 1 \<le> n" by blast
  from k len show "numParens p - 1 < length (parens p)" by simp
qed

lemma scan_right_paren_counted:
  assumes "stack_ok p" "peekChar p = Some CHR '')''" "0 < numParens p"
    "parens p ! (numParens p - 1) = Some n"
  shows "scan p =
     (let p1 = p\<lparr>tokenStart := currentChar p, currentChar := currentChar p + 1\<rparr>
      in if n = 1
         then readString (p1\<lparr>parens := (parens p)[numParens p - 1 := Some 0],
                            numParens := numParens p - 1\<rparr>)
         else Some (makeToken TOKEN_RIGHT_PAREN
                      (p1\<lparr>parens := (parens p)[numParens p - 1 := Some (n - 1)]\<rparr>)))"
proof -
  from stack_ok_top(2)[OF assms(1,3)] have len: "numParens p - 1 < length (parens p)" .
  show ?thesis
    using assms(3,4) len
    by (simp add: scan_right_paren[OF assms(2)] Let_def top_add_def)
qed

lemma scan_right_paren_outside:
  assumes "peekChar p = Some CHR '')''" "numParens p = 0"
  shows "scan p = Some (makeToken TOKEN_RIGHT_PAREN
           (p\<lparr>tokenStart := currentChar p, currentChar := currentChar p + 1\<rparr>))"
  using assms(2) by (simp add: scan_right_paren[OF assms(1)] Let_def)

subsection \<open>What the code skips is a skipped span of the specification\<close>









subsection \<open>The pieces of a run put together\<close>





text \<open>A source of \<open>+\<close> signs: each call makes one PLUS token and advances by one.\<close>

lemma nextTokens_Suc_last:
  "nextTokens (Suc n) p = Option.bind (nextTokens n p) nextToken"
proof (induction n arbitrary: p)
  case 0
  show ?case by (cases "nextToken p") simp_all
next
  case (Suc n)
  show ?case
  proof (cases "nextToken p")
    case None
    then show ?thesis by simp
  next
    case (Some q)
    have "nextTokens (Suc (Suc n)) p = nextTokens (Suc n) q"
      using Some by (simp only: nextTokens.simps Option.bind.simps)
    also have "\<dots> = Option.bind (nextTokens n q) nextToken" by (rule Suc)
    also have "nextTokens n q = nextTokens (Suc n) p"
      using Some by (simp only: nextTokens.simps Option.bind.simps)
    finally show ?thesis .
  qed
qed

lemma nextToken_plus:
  assumes "peekChar p = Some CHR ''+''" "type_t (store p ! current p) \<noteq> Some TOKEN_EOF"
  shows "nextToken p = Some (makeToken TOKEN_PLUS
           (p\<lparr>previous := current p, tokenStart := currentChar p,
              currentChar := currentChar p + 1\<rparr>))"
proof -
  let ?p = "p\<lparr>previous := current p\<rparr>"
  have pk: "peekChar ?p = Some CHR ''+''" using assms(1) by (simp add: peekChar_def)
  have n: "nextChar (p\<lparr>previous := current p, tokenStart := currentChar p\<rparr>) =
      (Some CHR ''+'', p\<lparr>previous := current p, tokenStart := currentChar p,
                          currentChar := currentChar p + 1\<rparr>)"
    using assms(1) by (simp add: nextChar_def peekChar_def Let_def LF_def)
  have "scan ?p = Some (makeToken TOKEN_PLUS
           (p\<lparr>previous := current p, tokenStart := currentChar p,
              currentChar := currentChar p + 1\<rparr>))"
    by (subst scan.simps) (simp add: pk n NUL_def lexChar_def punctuation_def)
  with assms(2) show ?thesis by (simp add: nextToken_def Let_def)
qed

lemma nextTokens_plus:
  "k \<le> m \<Longrightarrow> \<exists>q. nextTokens k (init (replicate m CHR ''+'')) = Some q
      \<and> source q = replicate m CHR ''+'' \<and> currentChar q = int k \<and> length (tokens q) = k
      \<and> warned q = [] \<and> current q = 0 \<and> length (store q) = 2
      \<and> type_t (store q ! 0) \<noteq> Some TOKEN_EOF"
proof (induction k)
  case 0
  show ?case by (simp add: init_def blank_def)
next
  case (Suc k)
  then obtain q where q: "nextTokens k (init (replicate m CHR ''+'')) = Some q"
    "source q = replicate m CHR ''+''" "currentChar q = int k" "length (tokens q) = k"
    "warned q = []" "current q = 0" "length (store q) = 2"
    "type_t (store q ! 0) \<noteq> Some TOKEN_EOF"
    by auto
  from Suc.prems q(2,3) have pk: "peekChar q = Some CHR ''+''"
    by (simp add: peekChar_def char_at_def)
  from q(6,8) have ne: "type_t (store q ! current q) \<noteq> Some TOKEN_EOF" by simp
  let ?q = "makeToken TOKEN_PLUS (q\<lparr>previous := current q, tokenStart := currentChar q,
              currentChar := currentChar q + 1\<rparr>)"
  have "nextTokens (Suc k) (init (replicate m CHR ''+'')) = Some ?q"
    by (simp only: nextTokens_Suc_last q(1) Option.bind.simps nextToken_plus[OF pk ne])
  moreover have "source ?q = replicate m CHR ''+'' \<and> currentChar ?q = int (Suc k)
      \<and> length (tokens ?q) = Suc k \<and> warned ?q = [] \<and> current ?q = 0 \<and> length (store ?q) = 2
      \<and> type_t (store ?q ! 0) \<noteq> Some TOKEN_EOF"
    using q(2-7) by (simp add: makeToken_def update_current_def Let_def)
  ultimately show ?case by blast
qed

text \<open>After every call \<open>previous\<close> and \<open>current\<close> are the same address.\<close>

lemma nextToken_previous_current:
  assumes "nextToken p = Some q"
  shows "previous q = current q"
  using nextToken_cases[OF assms]
  by (auto simp: scanned_def reached_def makeToken_frame invalidChar_frame)

section \<open>Claims\<close>

text \<open>
  C1 (the code departs from it). The claim: on every finite buffer, the empty one included,
  repeated \<open>nextToken\<close> calls end in an EOF token, and each call returns. In the code the end
  of the source is recognised only by a NUL character, which a JavaScript string does not
  end with. On the empty source every call, however many are made, leaves an ERROR token in
  \<open>current\<close> and records nothing in \<open>tokens\<close>, so EOF never comes; and on the source
  \<open>//\<close> the first call does not return, since \<open>skipLineComment\<close> waits for a newline or NUL.
\<close>

theorem nextToken_empty_source_never_EOF:
  "(\<forall>n. map_option (\<lambda>p. (type_t (store p ! current p), tokens p, currentChar p))
          (nextTokens (Suc n) (init [])) = Some (Some TOKEN_ERROR, [], 1 + int n))
   \<and> nextToken (init ''//'') = None"
proof
  show "\<forall>n. map_option (\<lambda>p. (type_t (store p ! current p), tokens p, currentChar p))
          (nextTokens (Suc n) (init [])) = Some (Some TOKEN_ERROR, [], 1 + int n)"
  proof
    fix n
    have "past_end (init [])" by (simp add: past_end_def init_def blank_def)
    from nextTokens_past_end[OF this, of n]
    show "map_option (\<lambda>p. (type_t (store p ! current p), tokens p, currentChar p))
            (nextTokens (Suc n) (init [])) = Some (Some TOKEN_ERROR, [], 1 + int n)"
      by (auto simp: init_def)
  qed
  show "nextToken (init ''//'') = None"
    by (simp add: nextToken_def init_def blank_def scan.simps lexChar_def nextChar_def
        peekChar_def char_at_def NUL_def matchChar_def punctuation_def twoChar_def
        skipLineComment_past_end Let_def)
qed




text \<open>
  C3 (the code departs from it). The claim: the numeric value of a number token is computed
  from its lexeme, so \<open>0x1A\<close> has value 26 and \<open>3.14\<close> has value 3.14. \<open>makeNumber\<close> passes
  the offset \<open>this.tokenStart\<close>, not the lexeme, to \<open>parseInt\<close> and \<open>parseFloat\<close>: at offset 0
  the literals \<open>0x1A\<close>, \<open>3.14\<close> and \<open>2e-3\<close> get the value 0, and the same \<open>0x1A\<close> at
  offset 2 gets the value 2. The rest of the claim holds: \<open>1.toString\<close> is NUMBER \<open>1\<close>, DOT,
  NAME \<open>toString\<close>, and \<open>2e\<close> is reported as unterminated scientific notation.
\<close>

theorem makeNumber_value_is_offset:
  "map_option (\<lambda>p. (map (\<lambda>e. (type_e e, value_e e)) (tokens p), value_t (store p ! current p)))
     (nextToken (init ''0x1A'')) = Some ([(TOKEN_NUMBER, ''0x1A'')], Number (Num 0))
   \<and> map_option (\<lambda>p. (map (\<lambda>e. (type_e e, value_e e)) (tokens p), value_t (store p ! current p)))
     (nextToken (init ''3.14'')) = Some ([(TOKEN_NUMBER, ''3.14'')], Number (Num 0))
   \<and> map_option (\<lambda>p. (map (\<lambda>e. (type_e e, value_e e)) (tokens p), value_t (store p ! current p)))
     (nextToken (init ''2e-3'')) = Some ([(TOKEN_NUMBER, ''2e-3'')], Number (Num 0))
   \<and> map_option (\<lambda>p. (map (\<lambda>e. (type_e e, value_e e)) (tokens p), value_t (store p ! current p)))
     (nextToken (init ''  0x1A'')) = Some ([(TOKEN_NUMBER, ''0x1A'')], Number (Num 2))
   \<and> map_option (\<lambda>p. map (\<lambda>e. (type_e e, value_e e)) (tokens p))
     (nextTokens 3 (init ''1.toString'')) =
       Some [(TOKEN_NUMBER, ''1''), (TOKEN_DOT, ''.''), (TOKEN_NAME, ''toString'')]
   \<and> map_option (\<lambda>p. (map (\<lambda>e. (type_e e, value_e e)) (tokens p), warned p))
     (nextToken (init ''2e'')) =
       Some ([(TOKEN_NUMBER, ''2e'')], [(0, ''Unterminated scientific notation.'')])"
  by code_simp

text \<open>
  C4. When the \<open>switch\<close> consumes \<open>)\<close>: if the interpolation stack is not empty and the
  decremented top counter is zero, the call is \<open>readString\<close> on the state with the stack
  popped, and what \<open>readString\<close> records is a STRING or INTERPOLATION token, never
  RIGHT_PAREN; otherwise the call makes a RIGHT_PAREN token. On \<open>"a %(1+2) b"\<close> the
  tokens are INTERPOLATION \<open>"a %(\<close>, NUMBER \<open>1\<close>, PLUS, NUMBER \<open>2\<close>, STRING \<open>) b"\<close>, with
  no error reported and stack depth 0 at the end.

  The counter itself: after any number of calls the stack is well-formed, so the top level
  in use holds a count \<open>n\<close> of at least 1. In such a state a \<open>)\<close> with \<open>n = 1\<close> stores 0,
  pops the level and resumes the string; with \<open>n > 1\<close> it stores \<open>n - 1\<close>, keeps the depth
  and makes RIGHT_PAREN; with an empty stack it makes RIGHT_PAREN and touches nothing. On
  \<open>"%((1))" )\<close> the inner \<open>(\<close> raises the count to 2, the first \<open>)\<close> is a RIGHT_PAREN
  that lowers it to 1, the second \<open>)\<close> ends the interpolation, and the \<open>)\<close> after the
  string is a RIGHT_PAREN again.
\<close>

theorem right_paren_ends_interpolation:
  "(\<forall>p. peekChar p = Some CHR '')'' \<longrightarrow>
      scan p =
        (let p1 = p\<lparr>tokenStart := currentChar p, currentChar := currentChar p + 1\<rparr>;
             p2 = top_add (- 1) p1
         in if 0 < numParens p \<and> parens p2 ! (numParens p - 1) = Some 0
            then readString (p2\<lparr>numParens := numParens p - 1\<rparr>)
            else Some (makeToken TOKEN_RIGHT_PAREN (if 0 < numParens p then p2 else p1))))
   \<and> (\<forall>p q. readString p = Some q \<longrightarrow>
         (\<exists>e. tokens q = tokens p @ [e]
              \<and> (type_e e = TOKEN_STRING \<or> type_e e = TOKEN_INTERPOLATION)))
   \<and> map_option (\<lambda>p. (map (\<lambda>e. (type_e e, value_e e)) (tokens p), numParens p, warned p))
        (nextTokens 5 (init interpolated)) =
      Some ([(TOKEN_INTERPOLATION, DQUOTE # ''a %(''), (TOKEN_NUMBER, ''1''), (TOKEN_PLUS, ''+''),
             (TOKEN_NUMBER, ''2''), (TOKEN_STRING, '') b'' @ [DQUOTE])], 0, [])
   \<and> (\<forall>src k p. nextTokens k (init src) = Some p \<longrightarrow> stack_ok p)
   \<and> (\<forall>p. stack_ok p \<and> 0 < numParens p \<longrightarrow>
         (\<exists>n. parens p ! (numParens p - 1) = Some n \<and> 1 \<le> n))
   \<and> (\<forall>p n. stack_ok p \<and> peekChar p = Some CHR '')'' \<and> 0 < numParens p
           \<and> parens p ! (numParens p - 1) = Some n \<longrightarrow>
         scan p =
           (let p1 = p\<lparr>tokenStart := currentChar p, currentChar := currentChar p + 1\<rparr>
            in if n = 1
               then readString (p1\<lparr>parens := (parens p)[numParens p - 1 := Some 0],
                                  numParens := numParens p - 1\<rparr>)
               else Some (makeToken TOKEN_RIGHT_PAREN
                            (p1\<lparr>parens := (parens p)[numParens p - 1 := Some (n - 1)]\<rparr>))))
   \<and> (\<forall>p. peekChar p = Some CHR '')'' \<and> numParens p = 0 \<longrightarrow>
         scan p = Some (makeToken TOKEN_RIGHT_PAREN
                          (p\<lparr>tokenStart := currentChar p, currentChar := currentChar p + 1\<rparr>)))
   \<and> map_option (\<lambda>p. (numParens p, take 1 (parens p))) (nextTokens 2 (init nested_parens)) =
      Some (1, [Some 2])
   \<and> map_option (\<lambda>p. (numParens p, take 1 (parens p))) (nextTokens 4 (init nested_parens)) =
      Some (1, [Some 1])
   \<and> map_option (\<lambda>p. (map (\<lambda>e. (type_e e, value_e e)) (tokens p), numParens p, warned p))
        (nextTokens 6 (init nested_parens)) =
      Some ([(TOKEN_INTERPOLATION, DQUOTE # ''%(''), (TOKEN_LEFT_PAREN, ''(''),
             (TOKEN_NUMBER, ''1''), (TOKEN_RIGHT_PAREN, '')''),
             (TOKEN_STRING, '')'' @ [DQUOTE]), (TOKEN_RIGHT_PAREN, '')'')], 0, [])"
proof (intro conjI allI impI)
  fix p
  assume "peekChar p = Some CHR '')''"
  then show "scan p =
        (let p1 = p\<lparr>tokenStart := currentChar p, currentChar := currentChar p + 1\<rparr>;
             p2 = top_add (- 1) p1
         in if 0 < numParens p \<and> parens p2 ! (numParens p - 1) = Some 0
            then readString (p2\<lparr>numParens := numParens p - 1\<rparr>)
            else Some (makeToken TOKEN_RIGHT_PAREN (if 0 < numParens p then p2 else p1)))"
    by (rule scan_right_paren)
next
  fix p q
  assume "readString p = Some q"
  then show "\<exists>e. tokens q = tokens p @ [e]
              \<and> (type_e e = TOKEN_STRING \<or> type_e e = TOKEN_INTERPOLATION)"
    by (rule readString_token)
next
  show "map_option (\<lambda>p. (map (\<lambda>e. (type_e e, value_e e)) (tokens p), numParens p, warned p))
        (nextTokens 5 (init interpolated)) =
      Some ([(TOKEN_INTERPOLATION, DQUOTE # ''a %(''), (TOKEN_NUMBER, ''1''), (TOKEN_PLUS, ''+''),
             (TOKEN_NUMBER, ''2''), (TOKEN_STRING, '') b'' @ [DQUOTE])], 0, [])"
    by code_simp
next
  fix src k p
  assume "nextTokens k (init src) = Some p"
  from nextTokens_stack_ok[OF this stack_ok_init] show "stack_ok p" .
next
  fix p
  assume "stack_ok p \<and> 0 < numParens p"
  then show "\<exists>n. parens p ! (numParens p - 1) = Some n \<and> 1 \<le> n"
    using stack_ok_top(1)[of p] by simp
next
  fix p n
  assume "stack_ok p \<and> peekChar p = Some CHR '')'' \<and> 0 < numParens p
           \<and> parens p ! (numParens p - 1) = Some n"
  then show "scan p =
           (let p1 = p\<lparr>tokenStart := currentChar p, currentChar := currentChar p + 1\<rparr>
            in if n = 1
               then readString (p1\<lparr>parens := (parens p)[numParens p - 1 := Some 0],
                                  numParens := numParens p - 1\<rparr>)
               else Some (makeToken TOKEN_RIGHT_PAREN
                            (p1\<lparr>parens := (parens p)[numParens p - 1 := Some (n - 1)]\<rparr>)))"
    using scan_right_paren_counted[of p n] by simp
next
  fix p
  assume "peekChar p = Some CHR '')'' \<and> numParens p = 0"
  then show "scan p = Some (makeToken TOKEN_RIGHT_PAREN
                          (p\<lparr>tokenStart := currentChar p, currentChar := currentChar p + 1\<rparr>))"
    using scan_right_paren_outside[of p] by simp
next
  show "map_option (\<lambda>p. (numParens p, take 1 (parens p))) (nextTokens 2 (init nested_parens)) =
      Some (1, [Some 2])"
    by code_simp
next
  show "map_option (\<lambda>p. (numParens p, take 1 (parens p))) (nextTokens 4 (init nested_parens)) =
      Some (1, [Some 1])"
    by code_simp
next
  show "map_option (\<lambda>p. (map (\<lambda>e. (type_e e, value_e e)) (tokens p), numParens p, warned p))
        (nextTokens 6 (init nested_parens)) =
      Some ([(TOKEN_INTERPOLATION, DQUOTE # ''%(''), (TOKEN_LEFT_PAREN, ''(''),
             (TOKEN_NUMBER, ''1''), (TOKEN_RIGHT_PAREN, '')''),
             (TOKEN_STRING, '')'' @ [DQUOTE]), (TOKEN_RIGHT_PAREN, '')'')], 0, [])"
    by code_simp
qed

theorem right_paren_ends_interpolation_witness:
  "peekChar (the (nextTokens 4 (init interpolated))) = Some CHR '')''
   \<and> map_option (\<lambda>q. (map type_e (tokens q), numParens q))
        (scan (the (nextTokens 4 (init interpolated)))) =
      Some ([TOKEN_INTERPOLATION, TOKEN_NUMBER, TOKEN_PLUS, TOKEN_NUMBER, TOKEN_STRING], 0)
   \<and> peekChar (init '')'') = Some CHR '')''
   \<and> map_option (\<lambda>q. map type_e (tokens q)) (scan (init '')'')) = Some [TOKEN_RIGHT_PAREN]
   \<and> nextTokens 3 (init nested_parens) = Some (the (nextTokens 3 (init nested_parens)))
   \<and> stack_ok (the (nextTokens 3 (init nested_parens)))
   \<and> peekChar (the (nextTokens 3 (init nested_parens))) = Some CHR '')''
   \<and> 0 < numParens (the (nextTokens 3 (init nested_parens)))
   \<and> parens (the (nextTokens 3 (init nested_parens)))
        ! (numParens (the (nextTokens 3 (init nested_parens))) - 1) = Some 2
   \<and> map_option (\<lambda>q. (map type_e (tokens q), numParens q, take 1 (parens q)))
        (scan (the (nextTokens 3 (init nested_parens)))) =
      Some ([TOKEN_INTERPOLATION, TOKEN_LEFT_PAREN, TOKEN_NUMBER, TOKEN_RIGHT_PAREN], 1, [Some 1])"
proof -
  let ?p = "the (nextTokens 4 (init interpolated))"
  have h: "peekChar ?p = Some CHR '')''" by code_simp
  have h2: "peekChar (init '')'') = Some CHR '')''" by code_simp
  have e: "map_option (\<lambda>q. (map type_e (tokens q), numParens q))
     (let p1 = ?p\<lparr>tokenStart := currentChar ?p, currentChar := currentChar ?p + 1\<rparr>;
          p2 = top_add (- 1) p1
      in if 0 < numParens ?p \<and> parens p2 ! (numParens ?p - 1) = Some 0
         then readString (p2\<lparr>numParens := numParens ?p - 1\<rparr>)
         else Some (makeToken TOKEN_RIGHT_PAREN (if 0 < numParens ?p then p2 else p1))) =
      Some ([TOKEN_INTERPOLATION, TOKEN_NUMBER, TOKEN_PLUS, TOKEN_NUMBER, TOKEN_STRING], 0)"
    by code_simp
  let ?r = "init '')''"
  have e2: "map_option (\<lambda>q. map type_e (tokens q))
     (let p1 = ?r\<lparr>tokenStart := currentChar ?r, currentChar := currentChar ?r + 1\<rparr>;
          p2 = top_add (- 1) p1
      in if 0 < numParens ?r \<and> parens p2 ! (numParens ?r - 1) = Some 0
         then readString (p2\<lparr>numParens := numParens ?r - 1\<rparr>)
         else Some (makeToken TOKEN_RIGHT_PAREN (if 0 < numParens ?r then p2 else p1))) =
      Some [TOKEN_RIGHT_PAREN]"
    by code_simp
  let ?s = "the (nextTokens 3 (init nested_parens))"
  have r3: "nextTokens 3 (init nested_parens) = Some ?s" by code_simp
  have h3: "stack_ok ?s \<and> peekChar ?s = Some CHR '')'' \<and> 0 < numParens ?s
           \<and> parens ?s ! (numParens ?s - 1) = Some 2"
    by code_simp
  have e3: "map_option (\<lambda>q. (map type_e (tokens q), numParens q, take 1 (parens q)))
     (let p1 = ?s\<lparr>tokenStart := currentChar ?s, currentChar := currentChar ?s + 1\<rparr>
      in if (2::int) = 1
         then readString (p1\<lparr>parens := (parens ?s)[numParens ?s - 1 := Some 0],
                            numParens := numParens ?s - 1\<rparr>)
         else Some (makeToken TOKEN_RIGHT_PAREN
                      (p1\<lparr>parens := (parens ?s)[numParens ?s - 1 := Some (2 - 1)]\<rparr>))) =
      Some ([TOKEN_INTERPOLATION, TOKEN_LEFT_PAREN, TOKEN_NUMBER, TOKEN_RIGHT_PAREN], 1, [Some 1])"
    by code_simp
  note T = right_paren_ends_interpolation
  note c1 = T[THEN conjunct1, rule_format]
  note c4 = T[THEN conjunct2, THEN conjunct2, THEN conjunct2, THEN conjunct1, rule_format]
  note c6 = T[THEN conjunct2, THEN conjunct2, THEN conjunct2, THEN conjunct2, THEN conjunct2,
      THEN conjunct1, rule_format]
  have s3: "scan ?s =
     (let p1 = ?s\<lparr>tokenStart := currentChar ?s, currentChar := currentChar ?s + 1\<rparr>
      in if (2::int) = 1
         then readString (p1\<lparr>parens := (parens ?s)[numParens ?s - 1 := Some 0],
                            numParens := numParens ?s - 1\<rparr>)
         else Some (makeToken TOKEN_RIGHT_PAREN
                      (p1\<lparr>parens := (parens ?s)[numParens ?s - 1 := Some (2 - 1)]\<rparr>)))"
    by (rule c6[OF h3])
  have ok: "stack_ok ?s" by (rule c4[OF r3])
  from c1[OF h] e c1[OF h2] e2 h h2 r3 h3 ok e3[folded s3]
  show ?thesis by simp
qed

text \<open>
  C5. After any number of calls on any source the stack depth is at most
  \<open>MAX_INTERPOLATION_NESTING\<close>, which is 8. On nine nested interpolated strings the first
  eight calls push eight levels without error; the ninth call reports the one nesting
  error, pushes nothing (depth stays 8) and scans \<open>"%(x)"\<close> as a plain STRING; the rest
  is scanned as eight closing STRING tokens, \<open>+\<close>, \<open>y\<close> and EOF, with depth 0 and still
  exactly one error.
\<close>

theorem nesting_bounded:
  "(\<forall>src n p. nextTokens n (init src) = Some p \<longrightarrow> numParens p \<le> MAX_INTERPOLATION_NESTING)
   \<and> MAX_INTERPOLATION_NESTING = 8
   \<and> map_option (\<lambda>p. (map type_e (tokens p), numParens p, warned p))
        (nextTokens 8 (init nine_deep)) =
      Some (replicate 8 TOKEN_INTERPOLATION, 8, [])
   \<and> map_option (\<lambda>p. (map (\<lambda>e. (type_e e, value_e e)) (drop 8 (tokens p)), numParens p, warned p))
        (nextTokens 9 (init nine_deep)) =
      Some ([(TOKEN_STRING, DQUOTE # ''%(x)'' @ [DQUOTE])], 8,
            [(0, ''Interpolation may only nest 8 levels deep.'')])
   \<and> map_option (\<lambda>p. (map (\<lambda>e. (type_e e, value_e e)) (drop 9 (tokens p)), numParens p, warned p))
        (Parser nine_deep) =
      Some (replicate 8 (TOKEN_STRING, '')'' @ [DQUOTE]) @
            [(TOKEN_PLUS, ''+''), (TOKEN_NAME, ''y''), (TOKEN_EOF, [])], 0,
            [(0, ''Interpolation may only nest 8 levels deep.'')])"
proof (intro conjI allI impI)
  fix src n p
  assume "nextTokens n (init src) = Some p"
  from nextTokens_numParens[OF this] show "numParens p \<le> MAX_INTERPOLATION_NESTING"
    by (simp add: init_def)
qed (code_simp+)

theorem nesting_bounded_witness:
  "nextTokens 8 (init nine_deep) = Some (the (nextTokens 8 (init nine_deep)))
   \<and> numParens (the (nextTokens 8 (init nine_deep))) = 8
   \<and> numParens (the (nextTokens 8 (init nine_deep))) \<le> MAX_INTERPOLATION_NESTING"
proof -
  have h: "nextTokens 8 (init nine_deep) = Some (the (nextTokens 8 (init nine_deep)))"
    by code_simp
  have v: "numParens (the (nextTokens 8 (init nine_deep))) = 8" by code_simp
  from nesting_bounded[THEN conjunct1, rule_format, OF h] h v show ?thesis by simp
qed

text \<open>
  C6 (the code departs from it). The claim: lines are counted from 1, so the LINE token of
  the newline that ends line 3 reports 3 and the token after it reports 4. The counter
  \<open>currentLine\<close> starts at 0: on four lines \<open>a\<close>, \<open>b\<close>, \<open>c\<close>, \<open>d\<close> the LINE token ending the
  third line reports 2 and the name \<open>d\<close> after it reports 3.
\<close>

theorem line_numbers_start_at_zero:
  "map_option (\<lambda>p. map (\<lambda>e. (type_e e, value_e e, line_e e)) (tokens p))
     (Parser (''a'' @ [LF] @ ''b'' @ [LF] @ ''c'' @ [LF] @ ''d'' @ [NUL])) =
   Some [(TOKEN_NAME, ''a'', 0), (TOKEN_LINE, [LF], 0), (TOKEN_NAME, ''b'', 1),
         (TOKEN_LINE, [LF], 1), (TOKEN_NAME, ''c'', 2), (TOKEN_LINE, [LF], 2),
         (TOKEN_NAME, ''d'', 3), (TOKEN_EOF, [], 3)]"
  by code_simp

text \<open>
  C7 (the code departs from it). The claim: after a call, \<open>previous\<close> holds the token that
  was in \<open>current\<close> before it. \<open>this.previous = this.current\<close> makes both fields refer to one
  object, which the call then overwrites: on \<open>a +\<close> the first call leaves the name \<open>a\<close> in
  \<open>current\<close>; after the second call \<open>previous\<close> holds the PLUS token, and \<open>previous\<close> and
  \<open>current\<close> are the same address (as after every call: \<open>nextToken_previous_current\<close>).
\<close>

theorem previous_aliases_current:
  "map_option (\<lambda>p. store p ! current p) (nextTokens 1 (init ''a +'')) =
     Some \<lparr>type_t = Some TOKEN_NAME, start_t = Some 0, length_t = 1, line_t = 0,
           value_t = Undefined\<rparr>
   \<and> map_option (\<lambda>p. store p ! previous p) (nextTokens 2 (init ''a +'')) =
     Some \<lparr>type_t = Some TOKEN_PLUS, start_t = Some 2, length_t = 1, line_t = 0,
           value_t = Undefined\<rparr>
   \<and> map_option (\<lambda>p. (previous p, current p)) (nextTokens 2 (init ''a +'')) = Some (0, 0)"
  by code_simp

text \<open>
  C8 (the code departs from it). The claim: an unrecognised printable ASCII character is
  reported as "Invalid character", any other byte as "Invalid byte". The test
  \<open>c >= 32 && c <= 126\<close> compares a one-character string with numbers; the string converts
  to at most 9 or to NaN, so the test is false for every character and the message is
  always "Invalid byte". On the printable character \<open>@\<close> the call leaves a zero-length
  ERROR token and reports \<open>Invalid byte 0x@.\<close>
\<close>

theorem invalid_character_message_unreachable:
  "(\<forall>c p. warned (invalidChar c p) =
            warned p @ [(currentLine p, ''Invalid byte 0x'' @ show_char c @ ''.'')])
   \<and> map_option (\<lambda>p. (type_t (store p ! current p), length_t (store p ! current p), warned p))
        (nextToken (init ''@'')) = Some (Some TOKEN_ERROR, 0, [(0, ''Invalid byte 0x@.'')])"
proof
  have small: "\<not> (case toNumber c of NaN \<Rightarrow> False | Num n \<Rightarrow> 32 \<le> n \<and> n \<le> 126)" for c
    by (auto simp: toNumber_def digitValue_def less_eq_char_def split: option.splits)
  show "\<forall>c p. warned (invalidChar c p) =
            warned p @ [(currentLine p, ''Invalid byte 0x'' @ show_char c @ ''.'')]"
    by (simp add: invalidChar_def small update_current_def lexError_def)
  show "map_option (\<lambda>p. (type_t (store p ! current p), length_t (store p ! current p), warned p))
        (nextToken (init ''@'')) = Some (Some TOKEN_ERROR, 0, [(0, ''Invalid byte 0x@.'')])"
    by code_simp
qed

text \<open>
  C9 (the code departs from it). The claim: \<open>#!\<close> at the very start of line 1 begins a line
  comment, and the rest of that line gives no token. The test is \<open>this.currentLine == 1\<close>,
  and \<open>currentLine\<close> is 0 on the first line: there \<open>#\<close> is reported as an invalid byte and
  the rest of the shebang line is tokenized.
\<close>

theorem shebang_on_first_line_is_tokenized:
  "map_option (\<lambda>p. (map (\<lambda>e. (type_e e, value_e e)) (tokens p), warned p))
     (Parser (''#!/bin/wren'' @ [LF] @ ''x'' @ [NUL])) =
   Some ([(TOKEN_BANG, ''!''), (TOKEN_SLASH, ''/''), (TOKEN_NAME, ''bin''), (TOKEN_SLASH, ''/''),
          (TOKEN_NAME, ''wren''), (TOKEN_LINE, [LF]), (TOKEN_NAME, ''x''), (TOKEN_EOF, [])],
         [(0, ''Invalid byte 0x#.'')])"
  by code_simp

text \<open>
  C10. The constructor is 85 calls of \<open>nextToken\<close> whatever the source, so a constructed
  parser has recorded at most 85 tokens. On ninety \<open>+\<close> signs it records 85 of them
  without any report and stops at offset 85; one further call of \<open>nextToken\<close> records
  the 86th.
\<close>

theorem constructor_records_at_most_85:
  "(\<forall>src. Parser src = nextTokens 85 (init src))
   \<and> (\<forall>src p. Parser src = Some p \<longrightarrow> length (tokens p) \<le> 85)
   \<and> map_option (\<lambda>p. (length (tokens p), currentChar p, warned p))
        (Parser (replicate 90 CHR ''+'')) = Some (85, 85, [])
   \<and> map_option (\<lambda>p. (length (tokens p), currentChar p))
        (Option.bind (Parser (replicate 90 CHR ''+'')) nextToken) = Some (86, 86)"
proof (intro conjI allI impI)
  fix src p
  assume "Parser src = Some p"
  then have "nextTokens 85 (init src) = Some p" by (simp add: Parser_def)
  from nextTokens_count[OF this] show "length (tokens p) \<le> 85" by (simp add: init_def)
next
  fix src show "Parser src = nextTokens 85 (init src)" by (simp add: Parser_def)
next
  from nextTokens_plus[of 85 90]
  show "map_option (\<lambda>p. (length (tokens p), currentChar p, warned p))
        (Parser (replicate 90 CHR ''+'')) = Some (85, 85, [])"
    by (auto simp: Parser_def)
next
  have "Option.bind (Parser (replicate 90 CHR ''+'')) nextToken =
        nextTokens (Suc 85) (init (replicate 90 CHR ''+''))"
    by (simp only: nextTokens_Suc_last Parser_def)
  moreover from nextTokens_plus[of "Suc 85" 90]
  have "map_option (\<lambda>p. (length (tokens p), currentChar p))
          (nextTokens (Suc 85) (init (replicate 90 CHR ''+''))) = Some (86, 86)"
    by auto
  ultimately show "map_option (\<lambda>p. (length (tokens p), currentChar p))
        (Option.bind (Parser (replicate 90 CHR ''+'')) nextToken) = Some (86, 86)"
    by simp
qed

theorem constructor_records_at_most_85_witness:
  "Parser (replicate 90 CHR ''+'') \<noteq> None
   \<and> length (tokens (the (Parser (replicate 90 CHR ''+'')))) \<le> 85"
proof -
  from constructor_records_at_most_85[THEN conjunct2, THEN conjunct2, THEN conjunct1]
  obtain q where q: "Parser (replicate 90 CHR ''+'') = Some q" by auto
  from constructor_records_at_most_85[THEN conjunct2, THEN conjunct1, rule_format, OF q] q
  show ?thesis by simp
qed

end
